theory Spec2Isabelle
  imports Complex_Main "HOL-Library.Word" "HOL-Library.Log_Nat" "HOL-Library.Monad_Syntax"
begin

unbundle bit_operations_syntax

section \<open>The PIT driver (PITimer.cpp)\<close>

text \<open>
  A shallow embedding of \<^verbatim>\<open>PITimer.cpp\<close>, the driver of the Periodic Interrupt Timers
  of the MK20DX128. An object of class \<^verbatim>\<open>PITimer\<close> is a record, the memory-mapped
  registers are a record of their own, and a member function that changes anything takes
  the object and the machine and returns both.
\<close>

subsection \<open>Constants of the headers\<close>

text \<open>
  \<^verbatim>\<open>PITimer.h\<close> and \<^verbatim>\<open>mk20dx128.h\<close> are not part of the sources at hand. The three
  constants the code takes from them are parameters of the model: \<^verbatim>\<open>F_BUS\<close> (an integer
  macro, the bus clock in hertz), \<^verbatim>\<open>valueMin\<close> (the least raw value the driver accepts)
  and the bit \<^verbatim>\<open>SIM_SCGC6_PIT\<close>.
\<close>

record platform =
  F_BUS :: int
  valueMin :: "32 word"
  SIM_SCGC6_PIT :: "32 word"

definition UINT32_MAX :: "32 word" where
  "UINT32_MAX = 0xFFFFFFFF"

subsection \<open>The machine: registers, interrupt controller, trace\<close>

datatype reg =
    SIM_SCGC6
  | PIT_MCR
  | PIT_LDVAL0 | PIT_LDVAL1 | PIT_LDVAL2 | PIT_LDVAL3
  | PIT_CVAL0 | PIT_CVAL1 | PIT_CVAL2 | PIT_CVAL3
  | PIT_TCTRL0 | PIT_TCTRL1 | PIT_TCTRL2 | PIT_TCTRL3
  | PIT_TFLG0 | PIT_TFLG1 | PIT_TFLG2 | PIT_TFLG3

datatype irq = IRQ_PIT_CH0 | IRQ_PIT_CH1 | IRQ_PIT_CH2 | IRQ_PIT_CH3

text \<open>A callback is a pointer to a function \<^verbatim>\<open>void f()\<close>: its address, or null.\<close>

type_synonym isr = "nat option"

text \<open>
  Everything the driver does to the outside, in the order it does it: the stores to the
  (volatile) registers, the calls of the interrupt controller, the calls through a
  callback pointer.
\<close>

datatype event =
    Store reg "32 word"
  | Enable irq
  | Disable irq
  | Call nat

record machine =
  regs :: "reg \<Rightarrow> 32 word"
  enabled :: "irq \<Rightarrow> bool"
  trace :: "event list"

definition store :: "reg \<Rightarrow> 32 word \<Rightarrow> machine \<Rightarrow> machine" where
  "store r v m = m\<lparr>regs := (regs m)(r := v), trace := trace m @ [Store r v]\<rparr>"

definition NVIC_ENABLE_IRQ :: "irq \<Rightarrow> machine \<Rightarrow> machine" where
  "NVIC_ENABLE_IRQ n m = m\<lparr>enabled := (enabled m)(n := True), trace := trace m @ [Enable n]\<rparr>"

definition NVIC_DISABLE_IRQ :: "irq \<Rightarrow> machine \<Rightarrow> machine" where
  "NVIC_DISABLE_IRQ n m = m\<lparr>enabled := (enabled m)(n := False), trace := trace m @ [Disable n]\<rparr>"

subsection \<open>The class\<close>

record PITimer =
  myID :: "8 word"
  myValue :: "32 word"
  myISR :: isr
  isRunning :: bool

text \<open>\<^verbatim>\<open>void PITimer::writeValue()\<close>\<close>

definition writeValue :: "PITimer \<Rightarrow> machine \<Rightarrow> PITimer \<times> machine" where
  "writeValue t m =
     (if myID t = 0 then (t, store PIT_LDVAL0 (myValue t) m)
      else if myID t = 1 then (t, store PIT_LDVAL1 (myValue t) m)
      else if myID t = 2 then (t, store PIT_LDVAL2 (myValue t) m)
      else if myID t = 3 then (t, store PIT_LDVAL3 (myValue t) m)
      else (t, m))"

text \<open>\<^verbatim>\<open>void PITimer::value(uint32_t newValue)\<close>\<close>

definition value_set :: "platform \<Rightarrow> 32 word \<Rightarrow> PITimer \<Rightarrow> machine \<Rightarrow> PITimer \<times> machine" where
  "value_set pf newValue t m =
     (let newValue' =
            (if newValue = UINT32_MAX then UINT32_MAX - 1
             else if newValue < valueMin pf then valueMin pf
             else newValue)
      in writeValue (t\<lparr>myValue := newValue'\<rparr>) m)"

text \<open>\<^verbatim>\<open>uint32_t PITimer::value()\<close>\<close>

definition value_get :: "PITimer \<Rightarrow> 32 word" where
  "value_get t = myValue t"

text \<open>\<^verbatim>\<open>void PITimer::start(void (*newISR)())\<close>\<close>

definition start :: "isr \<Rightarrow> PITimer \<Rightarrow> machine \<Rightarrow> PITimer \<times> machine" where
  "start newISR t m =
     (let t' = t\<lparr>myISR := newISR, isRunning := True\<rparr>
      in if myID t' = 0 then (t', NVIC_ENABLE_IRQ IRQ_PIT_CH0 (store PIT_TCTRL0 3 m))
         else if myID t' = 1 then (t', NVIC_ENABLE_IRQ IRQ_PIT_CH1 (store PIT_TCTRL1 3 m))
         else if myID t' = 2 then (t', NVIC_ENABLE_IRQ IRQ_PIT_CH2 (store PIT_TCTRL2 3 m))
         else if myID t' = 3 then (t', NVIC_ENABLE_IRQ IRQ_PIT_CH3 (store PIT_TCTRL3 3 m))
         else (t', m))"

text \<open>\<^verbatim>\<open>void PITimer::clear()\<close>\<close>

definition clear :: "PITimer \<Rightarrow> machine \<Rightarrow> PITimer \<times> machine" where
  "clear t m =
     (if myID t = 0 then (t, store PIT_TFLG0 1 m)
      else if myID t = 1 then (t, store PIT_TFLG1 1 m)
      else if myID t = 2 then (t, store PIT_TFLG2 1 m)
      else if myID t = 3 then (t, store PIT_TFLG3 1 m)
      else (t, m))"

text \<open>\<^verbatim>\<open>void PITimer::reset()\<close>\<close>

definition reset :: "PITimer \<Rightarrow> machine \<Rightarrow> PITimer \<times> machine" where
  "reset t m =
     (if myID t = 0 then (t, store PIT_TCTRL0 3 (store PIT_TCTRL0 1 m))
      else if myID t = 1 then (t, store PIT_TCTRL1 3 (store PIT_TCTRL1 1 m))
      else if myID t = 2 then (t, store PIT_TCTRL2 3 (store PIT_TCTRL2 1 m))
      else if myID t = 3 then (t, store PIT_TCTRL3 3 (store PIT_TCTRL3 1 m))
      else (t, m))"

text \<open>\<^verbatim>\<open>void PITimer::stop()\<close>\<close>

definition stop :: "PITimer \<Rightarrow> machine \<Rightarrow> PITimer \<times> machine" where
  "stop t m =
     (let t' = t\<lparr>isRunning := False\<rparr>
      in if myID t' = 0 then (t', store PIT_TCTRL0 0 (NVIC_DISABLE_IRQ IRQ_PIT_CH0 m))
         else if myID t' = 1 then (t', store PIT_TCTRL1 0 (NVIC_DISABLE_IRQ IRQ_PIT_CH1 m))
         else if myID t' = 2 then (t', store PIT_TCTRL2 0 (NVIC_DISABLE_IRQ IRQ_PIT_CH2 m))
         else if myID t' = 3 then (t', store PIT_TCTRL3 0 (NVIC_DISABLE_IRQ IRQ_PIT_CH3 m))
         else (t', m))"

text \<open>\<^verbatim>\<open>bool PITimer::running()\<close>\<close>

definition running :: "PITimer \<Rightarrow> bool" where
  "running t = isRunning t"

subsection \<open>Single and double precision\<close>

text \<open>
  The compiler for the MK20DX128 (ARM, GCC) implements \<^verbatim>\<open>float\<close> and \<^verbatim>\<open>double\<close> as the
  IEEE 754 formats binary32 and binary64, rounds every operation to the nearest value of
  its format, ties to the even significand, and evaluates a \<^verbatim>\<open>float\<close> operation in
  \<^verbatim>\<open>float\<close>. A finite floating-point value is modelled by the rational number it
  stands for; the two zeros are not told apart. A format is its precision \<open>prec\<close> in
  bits, the exponent \<open>qmin\<close> of its least positive value and the exponent \<open>emax\<close> of its
  largest binade.

  \<open>fl fmt x\<close> rounds the exact result \<open>x\<close> of an operation: \<open>Some y\<close> is the value \<open>y\<close> of
  the format that is nearest to \<open>x\<close>, and \<open>None\<close> says that the result is not a finite
  number (it overflows to an infinity).
\<close>

record format =
  prec :: int
  qmin :: int
  emax :: int

definition binary32 :: format where
  "binary32 = \<lparr>prec = 24, qmin = - 149, emax = 127\<rparr>"

definition binary64 :: format where
  "binary64 = \<lparr>prec = 53, qmin = - 1074, emax = 1023\<rparr>"

text \<open>The binade of \<open>x \<noteq> 0\<close>: the \<open>e\<close> with \<open>2\<^sup>e \<le> \<bar>x\<bar> < 2\<^sup>e\<^sup>+\<^sup>1\<close>.\<close>

definition ilog2 :: "rat \<Rightarrow> int" where
  "ilog2 x =
     (case quotient_of \<bar>x\<bar> of (a, b) \<Rightarrow>
        let e = bitlen a - bitlen b in if 2 powi e \<le> \<bar>x\<bar> then e else e - 1)"

text \<open>The nearest integer, a tie going to the even one.\<close>

definition round_even :: "rat \<Rightarrow> int" where
  "round_even s =
     (let f = \<lfloor>s\<rfloor>; r = s - of_int f
      in if r < 1 / 2 then f
         else if 1 / 2 < r then f + 1
         else if even f then f else f + 1)"

definition fl :: "format \<Rightarrow> rat \<Rightarrow> rat option" where
  "fl fmt x =
     (if x = 0 then Some 0
      else let q = max (ilog2 x - (prec fmt - 1)) (qmin fmt);
               y = of_int (round_even (x / 2 powi q)) * 2 powi q
           in if \<bar>y\<bar> < 2 powi (emax fmt + 1) then Some y else None)"

text \<open>The finite values of \<^verbatim>\<open>float\<close>: those that rounding leaves alone.\<close>

definition is_float32 :: "rat \<Rightarrow> bool" where
  "is_float32 x \<longleftrightarrow> fl binary32 x = Some x"

text \<open>
  The conversions of the usual arithmetic conversions: \<^verbatim>\<open>int\<close> to \<^verbatim>\<open>float\<close> and
  \<^verbatim>\<open>uint32_t\<close> to \<^verbatim>\<open>float\<close> round; \<^verbatim>\<open>float\<close> to \<^verbatim>\<open>double\<close> is exact and is left out.
\<close>

definition int_to_float :: "int \<Rightarrow> rat option" where
  "int_to_float n = fl binary32 (of_int n)"

definition uint32_to_float :: "32 word \<Rightarrow> rat option" where
  "uint32_to_float w = fl binary32 (of_int (uint w))"

text \<open>
  \<^verbatim>\<open>float\<close> to \<^verbatim>\<open>uint32_t\<close> drops the fraction. C++ defines the conversion only if the
  truncated value is one of \<^verbatim>\<open>uint32_t\<close>; otherwise the behaviour is undefined, which is
  \<open>None\<close>.
\<close>

definition trunc :: "rat \<Rightarrow> int" where
  "trunc x = (if 0 \<le> x then \<lfloor>x\<rfloor> else \<lceil>x\<rceil>)"

definition float_to_uint32 :: "rat \<Rightarrow> 32 word option" where
  "float_to_uint32 x =
     (let n = trunc x in if 0 \<le> n \<and> n < 2 ^ 32 then Some (word_of_int n) else None)"

definition fmul :: "rat \<Rightarrow> rat \<Rightarrow> rat option" where
  "fmul a b = fl binary32 (a * b)"

definition fsub :: "rat \<Rightarrow> rat \<Rightarrow> rat option" where
  "fsub a b = fl binary32 (a - b)"

text \<open>A division by zero gives an infinity or a NaN, not a finite number.\<close>

definition fdiv :: "rat \<Rightarrow> rat \<Rightarrow> rat option" where
  "fdiv a b = (if b = 0 then None else fl binary32 (a / b))"

subsection \<open>Conversion between seconds, hertz and bus cycles\<close>

text \<open>
  \<^verbatim>\<open>float PITimer::round(float value) { return floor(value + 0.5); }\<close>
  The literal \<^verbatim>\<open>0.5\<close> is a \<^verbatim>\<open>double\<close>, so the sum is a \<^verbatim>\<open>double\<close> sum and \<^verbatim>\<open>floor\<close> is the
  one on \<^verbatim>\<open>double\<close> (exact); the \<^verbatim>\<open>return\<close> converts to \<^verbatim>\<open>float\<close>.
\<close>

definition round_f :: "rat \<Rightarrow> rat option" where
  "round_f v = do {
     d \<leftarrow> fl binary64 (v + 1 / 2);
     fl binary32 (of_int \<lfloor>d\<rfloor>)
   }"

text \<open>
  \<^verbatim>\<open>uint32_t newValue = round(F_BUS * newPeriod) - 1;\<close> in \<^verbatim>\<open>PITimer::period(float)\<close>.
  \<^verbatim>\<open>F_BUS\<close> is an \<^verbatim>\<open>int\<close> and \<^verbatim>\<open>newPeriod\<close> a \<^verbatim>\<open>float\<close>: the product is a \<^verbatim>\<open>float\<close> product.
  \<^verbatim>\<open>round\<close> returns a \<^verbatim>\<open>float\<close> and \<^verbatim>\<open>1\<close> is an \<^verbatim>\<open>int\<close>: the difference is a \<^verbatim>\<open>float\<close>
  difference, and only its result is converted to \<^verbatim>\<open>uint32_t\<close>.
  \<open>None\<close>: the initialisation has undefined behaviour.
\<close>

definition period_newValue :: "platform \<Rightarrow> rat \<Rightarrow> 32 word option" where
  "period_newValue pf newPeriod = do {
     f \<leftarrow> int_to_float (F_BUS pf);
     x \<leftarrow> fmul f newPeriod;
     r \<leftarrow> round_f x;
     one \<leftarrow> int_to_float 1;
     y \<leftarrow> fsub r one;
     float_to_uint32 y
   }"

text \<open>\<^verbatim>\<open>void PITimer::period(float newPeriod)\<close>\<close>

definition period_set ::
  "platform \<Rightarrow> rat \<Rightarrow> PITimer \<Rightarrow> machine \<Rightarrow> (PITimer \<times> machine) option" where
  "period_set pf newPeriod t m = do {
     newValue \<leftarrow> period_newValue pf newPeriod;
     Some (value_set pf newValue t m)
   }"

text \<open>\<^verbatim>\<open>uint32_t newValue = round(F_BUS / newFrequency) - 1;\<close> in \<^verbatim>\<open>PITimer::frequency(float)\<close>\<close>

definition frequency_newValue :: "platform \<Rightarrow> rat \<Rightarrow> 32 word option" where
  "frequency_newValue pf newFrequency = do {
     f \<leftarrow> int_to_float (F_BUS pf);
     x \<leftarrow> fdiv f newFrequency;
     r \<leftarrow> round_f x;
     one \<leftarrow> int_to_float 1;
     y \<leftarrow> fsub r one;
     float_to_uint32 y
   }"

text \<open>\<^verbatim>\<open>void PITimer::frequency(float newFrequency)\<close>\<close>

definition frequency_set ::
  "platform \<Rightarrow> rat \<Rightarrow> PITimer \<Rightarrow> machine \<Rightarrow> (PITimer \<times> machine) option" where
  "frequency_set pf newFrequency t m = do {
     newValue \<leftarrow> frequency_newValue pf newFrequency;
     Some (value_set pf newValue t m)
   }"

text \<open>
  \<^verbatim>\<open>float PITimer::period() { return (value() + 1) / float(F_BUS); }\<close>
  The sum is a \<^verbatim>\<open>uint32_t\<close> sum; it is converted to \<^verbatim>\<open>float\<close> for the division.
  \<open>None\<close>: the result is not a finite number.
\<close>

definition period_get :: "platform \<Rightarrow> PITimer \<Rightarrow> rat option" where
  "period_get pf t = do {
     n \<leftarrow> uint32_to_float (value_get t + 1);
     f \<leftarrow> int_to_float (F_BUS pf);
     fdiv n f
   }"

text \<open>\<^verbatim>\<open>float PITimer::frequency() { return float(F_BUS) / (value() + 1); }\<close>\<close>

definition frequency_get :: "platform \<Rightarrow> PITimer \<Rightarrow> rat option" where
  "frequency_get pf t = do {
     f \<leftarrow> int_to_float (F_BUS pf);
     n \<leftarrow> uint32_to_float (value_get t + 1);
     fdiv f n
   }"

subsection \<open>Construction\<close>

text \<open>
  \<^verbatim>\<open>PITimer::PITimer(uint8_t timerID) : myID(timerID), isRunning(false)\<close>.
  The constructor initialises two members and assigns \<^verbatim>\<open>myValue\<close>; \<^verbatim>\<open>myISR\<close> keeps
  what the storage \<open>raw\<close> of the object held.
\<close>

definition PITimer_ctor :: "platform \<Rightarrow> 8 word \<Rightarrow> PITimer \<Rightarrow> machine \<Rightarrow> PITimer \<times> machine" where
  "PITimer_ctor pf timerID raw m =
     (let t = raw\<lparr>myID := timerID, isRunning := False\<rparr>;
          m1 = store SIM_SCGC6 (regs m SIM_SCGC6 OR SIM_SCGC6_PIT pf) m;
          m2 = store PIT_MCR 0 m1
      in value_set pf (word_of_int (F_BUS pf)) t m2)"

subsection \<open>The three timer objects and their interrupt service routines\<close>

record program =
  PITimer0 :: PITimer
  PITimer1 :: PITimer
  PITimer2 :: PITimer
  hw :: machine

text \<open>
  The code behind the callback pointers is the user's: \<open>fns a\<close> is what the function at
  address \<open>a\<close> does to the program. A call through a null pointer is undefined.
\<close>

definition call :: "(nat \<Rightarrow> program \<Rightarrow> program) \<Rightarrow> isr \<Rightarrow> program \<Rightarrow> program option" where
  "call fns f p =
     (case f of
        None \<Rightarrow> None
      | Some a \<Rightarrow> Some (fns a (p\<lparr>hw := (hw p)\<lparr>trace := trace (hw p) @ [Call a]\<rparr>\<rparr>)))"

text \<open>\<^verbatim>\<open>void pit0_isr() { PITimer0.clear(); PITimer0.myISR(); }\<close>\<close>

definition pit0_isr :: "(nat \<Rightarrow> program \<Rightarrow> program) \<Rightarrow> program \<Rightarrow> program option" where
  "pit0_isr fns p =
     (let (t, m) = clear (PITimer0 p) (hw p); p' = p\<lparr>PITimer0 := t, hw := m\<rparr>
      in call fns (myISR (PITimer0 p')) p')"

text \<open>\<^verbatim>\<open>void pit1_isr() { PITimer1.clear(); PITimer1.myISR(); }\<close>\<close>

definition pit1_isr :: "(nat \<Rightarrow> program \<Rightarrow> program) \<Rightarrow> program \<Rightarrow> program option" where
  "pit1_isr fns p =
     (let (t, m) = clear (PITimer1 p) (hw p); p' = p\<lparr>PITimer1 := t, hw := m\<rparr>
      in call fns (myISR (PITimer1 p')) p')"

text \<open>\<^verbatim>\<open>void pit2_isr() { PITimer2.clear(); PITimer2.myISR(); }\<close>\<close>

definition pit2_isr :: "(nat \<Rightarrow> program \<Rightarrow> program) \<Rightarrow> program \<Rightarrow> program option" where
  "pit2_isr fns p =
     (let (t, m) = clear (PITimer2 p) (hw p); p' = p\<lparr>PITimer2 := t, hw := m\<rparr>
      in call fns (myISR (PITimer2 p')) p')"

subsection \<open>A concrete configuration\<close>

text \<open>
  The examples run on the 48 MHz bus of the comments in the code. The value of
  \<^verbatim>\<open>valueMin\<close> is not in the sources at hand; the examples take 639, the raw value of the
  75 kHz that the comment on \<^verbatim>\<open>frequency(float)\<close> gives as the upper end of the range.
\<close>

definition bus48 :: platform where
  "bus48 = \<lparr>F_BUS = 48000000, valueMin = 639, SIM_SCGC6_PIT = 0x00800000\<rparr>"

definition zeroed :: PITimer where
  "zeroed = \<lparr>myID = 0, myValue = 0, myISR = None, isRunning = False\<rparr>"

definition idle :: machine where
  "idle = \<lparr>regs = (\<lambda>_. 0), enabled = (\<lambda>_. False), trace = []\<rparr>"

text \<open>
  The program after the static initialisation
  \<^verbatim>\<open>PITimer PITimer0(0); PITimer PITimer1(1); PITimer PITimer2(2);\<close>
  of the three objects (in zeroed storage) and a \<^verbatim>\<open>start\<close> of each.
\<close>

definition started :: program where
  "started =
     (let (t0, m0) = PITimer_ctor bus48 0 zeroed idle;
          (t1, m1) = PITimer_ctor bus48 1 zeroed m0;
          (t2, m2) = PITimer_ctor bus48 2 zeroed m1;
          (t0', m3) = start (Some 7) t0 m2;
          (t1', m4) = start (Some 8) t1 m3;
          (t2', m5) = start (Some 9) t2 m4
      in \<lparr>PITimer0 = t0', PITimer1 = t1', PITimer2 = t2', hw = m5\<rparr>)"

subsection \<open>Properties as the specification words them\<close>

text \<open>The invariant of the raw value: \<open>valueMin \<le> raw_value \<le> UINT_MAX - 1\<close>.\<close>

definition value_inv :: "platform \<Rightarrow> PITimer \<Rightarrow> bool" where
  "value_inv pf t \<longleftrightarrow> valueMin pf \<le> myValue t \<and> myValue t \<le> UINT32_MAX - 1"

text \<open>
  The read views as the specification gives them, \<open>(raw_value + 1) / bus_frequency\<close> and
  \<open>bus_frequency / (raw_value + 1)\<close>: the sum is the sum of integers, the quotient is the
  single-precision quotient of the two operands converted to single precision.
\<close>

definition spec_period :: "platform \<Rightarrow> 32 word \<Rightarrow> rat option" where
  "spec_period pf raw_value = do {
     n \<leftarrow> int_to_float (uint raw_value + 1);
     f \<leftarrow> int_to_float (F_BUS pf);
     fdiv n f
   }"

definition spec_frequency :: "platform \<Rightarrow> 32 word \<Rightarrow> rat option" where
  "spec_frequency pf raw_value = do {
     f \<leftarrow> int_to_float (F_BUS pf);
     n \<leftarrow> int_to_float (uint raw_value + 1);
     fdiv f n
   }"

text \<open>
  The raw value of the write paths as the specification gives it,
  \<open>round(bus_frequency * seconds) - 1\<close> and \<open>round(bus_frequency / hz) - 1\<close> with \<open>round x\<close>
  the integer \<open>floor (x + 0.5)\<close>, in exact arithmetic.
\<close>

definition spec_period_raw :: "platform \<Rightarrow> rat \<Rightarrow> int" where
  "spec_period_raw pf seconds = \<lfloor>of_int (F_BUS pf) * seconds + 1 / 2\<rfloor> - 1"

definition spec_frequency_raw :: "platform \<Rightarrow> rat \<Rightarrow> int" where
  "spec_frequency_raw pf hz = \<lfloor>of_int (F_BUS pf) / hz + 1 / 2\<rfloor> - 1"

section \<open>What the member functions do to the object\<close>

lemma fst_writeValue: "fst (writeValue t m) = t"
  by (simp add: writeValue_def)

lemma fst_value_set:
  "fst (value_set pf v t m) =
     t\<lparr>myValue := (if v = UINT32_MAX then UINT32_MAX - 1
                    else if v < valueMin pf then valueMin pf else v)\<rparr>"
  by (simp add: value_set_def fst_writeValue)

lemma fst_start: "fst (start cb t m) = t\<lparr>myISR := cb, isRunning := True\<rparr>"
  by (simp add: start_def Let_def)

lemma fst_stop: "fst (stop t m) = t\<lparr>isRunning := False\<rparr>"
  by (simp add: stop_def Let_def)

lemma fst_reset: "fst (reset t m) = t"
  by (simp add: reset_def)

lemma fst_clear: "fst (clear t m) = t"
  by (simp add: clear_def)

section \<open>Setting and reading the raw value\<close>

text \<open>
  Claim C1. \<^verbatim>\<open>value(uint32_t)\<close> clamps silently, and the stored value is what \<^verbatim>\<open>value()\<close>
  returns: after \<^verbatim>\<open>value(v)\<close> the stored raw value is \<open>UINT32_MAX - 1\<close> if \<open>v = UINT32_MAX\<close>,
  \<open>valueMin\<close> if \<open>v < valueMin\<close>, and \<open>v\<close> otherwise; so a \<open>v\<close> with
  \<open>valueMin \<le> v \<le> UINT32_MAX - 2\<close> is read back unchanged. The function is total: no input
  makes it fail.
\<close>

theorem value_set_clamps:
  "value_get (fst (value_set pf v t m)) =
     (if v = UINT32_MAX then UINT32_MAX - 1
      else if v < valueMin pf then valueMin pf
      else v)
   \<and> (valueMin pf \<le> v \<and> v \<le> UINT32_MAX - 2 \<longrightarrow> value_get (fst (value_set pf v t m)) = v)"
proof -
  have "v \<noteq> UINT32_MAX" if "v \<le> UINT32_MAX - 2"
    using that by (auto simp: UINT32_MAX_def)
  then show ?thesis
    by (auto simp: fst_value_set value_get_def)
qed

theorem value_set_clamps_witness:
  "(valueMin bus48 \<le> 1000 \<and> (1000 :: 32 word) \<le> UINT32_MAX - 2)
   \<and> value_get (fst (value_set bus48 1000 zeroed idle)) = 1000
   \<and> value_get (fst (value_set bus48 5 zeroed idle)) = 639
   \<and> value_get (fst (value_set bus48 0xFFFFFFFF zeroed idle)) = 0xFFFFFFFE"
  using value_set_clamps [of bus48 1000 zeroed idle]
    value_set_clamps [of bus48 5 zeroed idle]
    value_set_clamps [of bus48 "0xFFFFFFFF" zeroed idle]
  by (simp add: bus48_def UINT32_MAX_def)

section \<open>The run state\<close>

text \<open>
  Claim C8. \<^verbatim>\<open>start(cb)\<close> stores the callback pointer and sets the flag, so that
  \<^verbatim>\<open>running()\<close> is true afterwards, also when the timer was started before and the
  callback is a new one; \<^verbatim>\<open>stop()\<close> clears the flag, so that \<^verbatim>\<open>running()\<close> is false
  afterwards, whether the timer ran or not.
\<close>

theorem start_stop_running:
  "myISR (fst (start cb t m)) = cb
   \<and> running (fst (start cb t m))
   \<and> myISR (fst (start cb' (fst (start cb t m)) (snd (start cb t m)))) = cb'
   \<and> running (fst (start cb' (fst (start cb t m)) (snd (start cb t m))))
   \<and> \<not> running (fst (stop t m))
   \<and> \<not> running (fst (stop (fst (stop t m)) (snd (stop t m))))
   \<and> \<not> running (fst (stop (fst (start cb t m)) (snd (start cb t m))))"
  by (simp add: fst_start fst_stop running_def)

theorem start_stop_running_witness:
  "running (fst (start (Some 7) zeroed idle))
   \<and> myISR (fst (start (Some 8) (fst (start (Some 7) zeroed idle)) (snd (start (Some 7) zeroed idle)))) = Some 8
   \<and> \<not> running (fst (stop (fst (start (Some 7) zeroed idle)) (snd (start (Some 7) zeroed idle))))
   \<and> \<not> running (fst (stop zeroed idle))"
  using start_stop_running [of "Some 7" zeroed idle "Some 8"]
  by simp

text \<open>
  Claim C9. \<^verbatim>\<open>reset()\<close> leaves the object as it is, whatever its state: the running
  flag, the stored raw value and the callback pointer are unchanged. All it does is store
  1 and then 3 in the control register of its channel.
\<close>

theorem reset_frame:
  "running (fst (reset t m)) = running t
   \<and> value_get (fst (reset t m)) = value_get t
   \<and> myISR (fst (reset t m)) = myISR t
   \<and> fst (reset t m) = t
   \<and> enabled (snd (reset t m)) = enabled m
   \<and> trace (snd (reset t m)) =
       trace m @
         (if myID t = 0 then [Store PIT_TCTRL0 1, Store PIT_TCTRL0 3]
          else if myID t = 1 then [Store PIT_TCTRL1 1, Store PIT_TCTRL1 3]
          else if myID t = 2 then [Store PIT_TCTRL2 1, Store PIT_TCTRL2 3]
          else if myID t = 3 then [Store PIT_TCTRL3 1, Store PIT_TCTRL3 3]
          else [])"
  by (simp add: reset_def store_def)

theorem reset_frame_witness:
  "running (fst (reset (fst (start (Some 7) zeroed idle)) (snd (start (Some 7) zeroed idle))))
   \<and> \<not> running (fst (reset zeroed idle))
   \<and> trace (snd (reset zeroed idle)) = [Store PIT_TCTRL0 1, Store PIT_TCTRL0 3]"
  using reset_frame [of "fst (start (Some 7) zeroed idle)" "snd (start (Some 7) zeroed idle)"]
    reset_frame [of zeroed idle]
  by (simp add: fst_start running_def zeroed_def idle_def)

section \<open>Interrupt dispatch\<close>

text \<open>
  Claim C3. Each of the three service routines acknowledges the interrupt before it calls
  the user: the callback registered for the channel starts in a program state whose trace
  is the trace at the interrupt, then the store of 1 to the flag register of the channel
  (what \<^verbatim>\<open>clear()\<close> does), then the call; at no earlier point is the callback called.
\<close>

theorem isr_clear_before_callback:
  "(myID (PITimer0 p) = 0 \<and> myISR (PITimer0 p) = Some f0 \<longrightarrow>
      (\<exists>p'. pit0_isr fns p = Some (fns f0 p')
          \<and> trace (hw p') = trace (hw p) @ [Store PIT_TFLG0 1, Call f0]
          \<and> regs (hw p') PIT_TFLG0 = 1))
   \<and> (myID (PITimer1 p) = 1 \<and> myISR (PITimer1 p) = Some f1 \<longrightarrow>
      (\<exists>p'. pit1_isr fns p = Some (fns f1 p')
          \<and> trace (hw p') = trace (hw p) @ [Store PIT_TFLG1 1, Call f1]
          \<and> regs (hw p') PIT_TFLG1 = 1))
   \<and> (myID (PITimer2 p) = 2 \<and> myISR (PITimer2 p) = Some f2 \<longrightarrow>
      (\<exists>p'. pit2_isr fns p = Some (fns f2 p')
          \<and> trace (hw p') = trace (hw p) @ [Store PIT_TFLG2 1, Call f2]
          \<and> regs (hw p') PIT_TFLG2 = 1))"
proof (intro conjI impI)
  assume "myID (PITimer0 p) = 0 \<and> myISR (PITimer0 p) = Some f0"
  then have "pit0_isr fns p =
      Some (fns f0 (p\<lparr>hw := (store PIT_TFLG0 1 (hw p))\<lparr>trace := trace (hw p) @ [Store PIT_TFLG0 1, Call f0]\<rparr>\<rparr>))"
    by (simp add: pit0_isr_def clear_def call_def store_def)
  then show "\<exists>p'. pit0_isr fns p = Some (fns f0 p')
          \<and> trace (hw p') = trace (hw p) @ [Store PIT_TFLG0 1, Call f0]
          \<and> regs (hw p') PIT_TFLG0 = 1"
    by (force simp: store_def)
next
  assume "myID (PITimer1 p) = 1 \<and> myISR (PITimer1 p) = Some f1"
  then have "pit1_isr fns p =
      Some (fns f1 (p\<lparr>hw := (store PIT_TFLG1 1 (hw p))\<lparr>trace := trace (hw p) @ [Store PIT_TFLG1 1, Call f1]\<rparr>\<rparr>))"
    by (simp add: pit1_isr_def clear_def call_def store_def)
  then show "\<exists>p'. pit1_isr fns p = Some (fns f1 p')
          \<and> trace (hw p') = trace (hw p) @ [Store PIT_TFLG1 1, Call f1]
          \<and> regs (hw p') PIT_TFLG1 = 1"
    by (force simp: store_def)
next
  assume "myID (PITimer2 p) = 2 \<and> myISR (PITimer2 p) = Some f2"
  then have "pit2_isr fns p =
      Some (fns f2 (p\<lparr>hw := (store PIT_TFLG2 1 (hw p))\<lparr>trace := trace (hw p) @ [Store PIT_TFLG2 1, Call f2]\<rparr>\<rparr>))"
    by (simp add: pit2_isr_def clear_def call_def store_def)
  then show "\<exists>p'. pit2_isr fns p = Some (fns f2 p')
          \<and> trace (hw p') = trace (hw p) @ [Store PIT_TFLG2 1, Call f2]
          \<and> regs (hw p') PIT_TFLG2 = 1"
    by (force simp: store_def)
qed

lemma fst_PITimer_ctor:
  "myID (fst (PITimer_ctor pf timerID raw m)) = timerID"
  "myISR (fst (PITimer_ctor pf timerID raw m)) = myISR raw"
  by (simp_all add: PITimer_ctor_def Let_def fst_value_set)

lemma started_simps:
  "myID (PITimer0 started) = 0" "myISR (PITimer0 started) = Some 7"
  "myID (PITimer1 started) = 1" "myISR (PITimer1 started) = Some 8"
  "myID (PITimer2 started) = 2" "myISR (PITimer2 started) = Some 9"
  by (simp_all add: started_def fst_start fst_PITimer_ctor split_beta)

theorem isr_clear_before_callback_witness:
  "(myID (PITimer0 started) = 0 \<and> myISR (PITimer0 started) = Some 7)
   \<and> (myID (PITimer1 started) = 1 \<and> myISR (PITimer1 started) = Some 8)
   \<and> (myID (PITimer2 started) = 2 \<and> myISR (PITimer2 started) = Some 9)
   \<and> (\<exists>p'. pit0_isr (\<lambda>a p. p) started = Some p'
          \<and> trace (hw p') = trace (hw started) @ [Store PIT_TFLG0 1, Call 7])
   \<and> (\<exists>p'. pit1_isr (\<lambda>a p. p) started = Some p'
          \<and> trace (hw p') = trace (hw started) @ [Store PIT_TFLG1 1, Call 8])
   \<and> (\<exists>p'. pit2_isr (\<lambda>a p. p) started = Some p'
          \<and> trace (hw p') = trace (hw started) @ [Store PIT_TFLG2 1, Call 9])"
  using isr_clear_before_callback [of started 7 "\<lambda>a p. p" 8 9]
  by (simp add: started_simps) blast

section \<open>The invariant of the raw value\<close>

lemma value_inv_value_set:
  assumes "valueMin pf \<le> UINT32_MAX - 1"
  shows "value_inv pf (fst (value_set pf v t m))"
proof -
  have "v \<le> UINT32_MAX - 1" if "v \<noteq> UINT32_MAX"
    using that unfolding UINT32_MAX_def by (simp add: word_le_def word_uint_eq_iff) (use uint_lt2p [of v] in simp)
  with assms show ?thesis
    by (auto simp: value_inv_def fst_value_set)
qed

lemma value_inv_no_wrap:
  assumes "value_inv pf t"
  shows "value_get t \<noteq> UINT32_MAX" and "uint (value_get t + 1) = uint (value_get t) + 1"
proof -
  from assms have le: "myValue t \<le> UINT32_MAX - 1"
    by (simp add: value_inv_def)
  then have "uint (myValue t) \<le> 4294967294"
    by (simp add: word_le_def UINT32_MAX_def)
  then show "value_get t \<noteq> UINT32_MAX"
    by (auto simp: value_get_def UINT32_MAX_def)
  from \<open>uint (myValue t) \<le> 4294967294\<close> show "uint (value_get t + 1) = uint (value_get t) + 1"
    by (simp add: value_get_def uint_word_ariths)
qed

lemma value_inv_period_set:
  assumes "valueMin pf \<le> UINT32_MAX - 1" and "period_set pf seconds t m = Some r"
  shows "value_inv pf (fst r)"
  using assms(2)
  by (auto simp: period_set_def value_inv_value_set [OF assms(1)] split: Option.bind_splits)

lemma value_inv_frequency_set:
  assumes "valueMin pf \<le> UINT32_MAX - 1" and "frequency_set pf hz t m = Some r"
  shows "value_inv pf (fst r)"
  using assms(2)
  by (auto simp: frequency_set_def value_inv_value_set [OF assms(1)] split: Option.bind_splits)

lemma period_newValue_example: "period_newValue bus48 (1 / 1024) = Some 46874"
  by code_simp

lemma frequency_newValue_example: "frequency_newValue bus48 1000 = Some 47999"
  by code_simp

lemma period_set_example:
  "period_set bus48 (1 / 1024) zeroed idle = Some (value_set bus48 46874 zeroed idle)"
  by (simp add: period_set_def period_newValue_example)

lemma frequency_set_example:
  "frequency_set bus48 1000 zeroed idle = Some (value_set bus48 47999 zeroed idle)"
  by (simp add: frequency_set_def frequency_newValue_example)

lemma bus48_valueMin: "valueMin bus48 \<le> UINT32_MAX - 1"
  by (simp add: bus48_def UINT32_MAX_def)

text \<open>
  Claim C4, as stated, fails for the two setters that convert from \<^verbatim>\<open>float\<close>: the claim
  is about every call, but \<^verbatim>\<open>period(0.0)\<close>, \<^verbatim>\<open>period(89.5)\<close> and \<^verbatim>\<open>frequency(0.0)\<close> on a
  48 MHz bus convert a \<^verbatim>\<open>float\<close> without a \<^verbatim>\<open>uint32_t\<close> value (\<open>-1.0\<close>, \<open>4296000000.0\<close>, an
  infinity), which is undefined: there is no state after the call of which the invariant
  could hold.
\<close>

theorem raw_value_invariant_counterexample:
  "is_float32 0 \<and> period_set bus48 0 zeroed idle = None
   \<and> is_float32 (179 / 2) \<and> period_set bus48 (179 / 2) zeroed idle = None
   \<and> frequency_set bus48 0 zeroed idle = None"
proof -
  have "period_newValue bus48 0 = None" "period_newValue bus48 (179 / 2) = None"
    "frequency_newValue bus48 0 = None"
    by code_simp+
  moreover have "is_float32 0" "is_float32 (179 / 2)"
    by code_simp+
  ultimately show ?thesis
    by (simp add: period_set_def frequency_set_def)
qed

text \<open>
  Claim C4, amended. With \<open>valueMin \<le> UINT32_MAX - 1\<close>, the invariant
  \<open>valueMin \<le> raw_value \<le> UINT32_MAX - 1\<close> holds of a constructed object, after
  \<^verbatim>\<open>value(v)\<close> for every \<open>v\<close>, and after \<^verbatim>\<open>period(seconds)\<close> and \<^verbatim>\<open>frequency(hz)\<close>
  whenever their conversion to \<^verbatim>\<open>uint32_t\<close> is defined; the other member functions keep
  it. Under the invariant the stored value is not \<open>UINT32_MAX\<close> and \<^verbatim>\<open>value() + 1\<close> does
  not wrap around.
\<close>

theorem raw_value_invariant:
  assumes "valueMin pf \<le> UINT32_MAX - 1"
  shows "value_inv pf (fst (PITimer_ctor pf timerID raw m))
     \<and> value_inv pf (fst (value_set pf v t m))
     \<and> (\<forall>r. period_set pf seconds t m = Some r \<longrightarrow> value_inv pf (fst r))
     \<and> (\<forall>r. frequency_set pf hz t m = Some r \<longrightarrow> value_inv pf (fst r))
     \<and> (value_inv pf t \<longrightarrow>
          value_inv pf (fst (start cb t m)) \<and> value_inv pf (fst (stop t m))
          \<and> value_inv pf (fst (reset t m)) \<and> value_inv pf (fst (clear t m))
          \<and> value_get t \<noteq> UINT32_MAX
          \<and> uint (value_get t + 1) = uint (value_get t) + 1)"
proof -
  have ctor: "value_inv pf (fst (PITimer_ctor pf timerID raw m))"
    by (simp add: PITimer_ctor_def Let_def value_inv_value_set [OF assms])
  have per: "value_inv pf (fst r)" if "period_set pf seconds t m = Some r" for r
    using assms that by (rule value_inv_period_set)
  have fre: "value_inv pf (fst r)" if "frequency_set pf hz t m = Some r" for r
    using assms that by (rule value_inv_frequency_set)
  have frame: "value_inv pf (fst (start cb t m)) \<and> value_inv pf (fst (stop t m))
          \<and> value_inv pf (fst (reset t m)) \<and> value_inv pf (fst (clear t m))" if "value_inv pf t"
    using that by (simp add: fst_start fst_stop fst_reset fst_clear value_inv_def)
  show ?thesis
    using ctor per fre frame value_inv_value_set [OF assms] value_inv_no_wrap
    by blast
qed

theorem raw_value_invariant_witness:
  "valueMin bus48 \<le> UINT32_MAX - 1
   \<and> period_set bus48 (1 / 1024) zeroed idle = Some (value_set bus48 46874 zeroed idle)
   \<and> value_inv bus48 (fst (value_set bus48 46874 zeroed idle))
   \<and> frequency_set bus48 1000 zeroed idle = Some (value_set bus48 47999 zeroed idle)
   \<and> value_inv bus48 (fst (value_set bus48 47999 zeroed idle))
   \<and> value_inv bus48 (fst (PITimer_ctor bus48 0 zeroed idle))
   \<and> value_get (fst (PITimer_ctor bus48 0 zeroed idle)) \<noteq> UINT32_MAX"
  using raw_value_invariant [where pf = bus48 and timerID = 0 and raw = zeroed and m = idle
      and v = 46874 and t = zeroed and seconds = "1 / 1024" and hz = 1000, OF bus48_valueMin]
    raw_value_invariant [where pf = bus48 and timerID = 0 and raw = zeroed and m = idle
      and v = 47999 and t = "fst (PITimer_ctor bus48 0 zeroed idle)", OF bus48_valueMin]
  by (simp add: period_set_example frequency_set_example bus48_valueMin)

section \<open>The read views\<close>

lemma period_get_spec:
  "uint (value_get t + 1) = uint (value_get t) + 1 \<Longrightarrow> period_get pf t = spec_period pf (value_get t)"
  by (simp add: period_get_def spec_period_def uint32_to_float_def int_to_float_def)

lemma frequency_get_spec:
  "uint (value_get t + 1) = uint (value_get t) + 1 \<Longrightarrow> frequency_get pf t = spec_frequency pf (value_get t)"
  by (simp add: frequency_get_def spec_frequency_def uint32_to_float_def int_to_float_def)

text \<open>
  Claim C6. After any of the three setters, \<^verbatim>\<open>period()\<close> is \<open>(value() + 1) / F_BUS\<close> and
  \<^verbatim>\<open>frequency()\<close> is \<open>F_BUS / (value() + 1)\<close>, the sum being that of the integers and the
  quotient the single-precision one; both are functions of the stored raw value alone, no
  period or frequency is stored.
\<close>

theorem read_views_derived:
  assumes "valueMin pf \<le> UINT32_MAX - 1"
    and "t' = fst (value_set pf v t m)
         \<or> period_set pf seconds t m = Some (t', m')
         \<or> frequency_set pf hz t m = Some (t', m')"
  shows "period_get pf t' = spec_period pf (value_get t')
     \<and> frequency_get pf t' = spec_frequency pf (value_get t')
     \<and> (\<forall>u. value_get u = value_get t' \<longrightarrow>
           period_get pf u = period_get pf t' \<and> frequency_get pf u = frequency_get pf t')"
proof -
  from assms(2) have "value_inv pf t'"
  proof (elim disjE)
    assume "t' = fst (value_set pf v t m)"
    then show ?thesis by (simp add: value_inv_value_set [OF assms(1)])
  next
    assume "period_set pf seconds t m = Some (t', m')"
    then show ?thesis
      using value_inv_period_set [OF assms(1)] by fastforce
  next
    assume "frequency_set pf hz t m = Some (t', m')"
    then show ?thesis
      using value_inv_frequency_set [OF assms(1)] by fastforce
  qed
  then have "uint (value_get t' + 1) = uint (value_get t') + 1"
    by (rule value_inv_no_wrap)
  then have "period_get pf t' = spec_period pf (value_get t')"
    and "frequency_get pf t' = spec_frequency pf (value_get t')"
    by (simp_all add: period_get_spec frequency_get_spec)
  moreover have "period_get pf u = period_get pf t' \<and> frequency_get pf u = frequency_get pf t'"
    if "value_get u = value_get t'" for u
    using that by (simp add: period_get_def frequency_get_def)
  ultimately show ?thesis
    by blast
qed

theorem read_views_derived_witness:
  "valueMin bus48 \<le> UINT32_MAX - 1
   \<and> period_set bus48 (1 / 1024) zeroed idle = Some (value_set bus48 46874 zeroed idle)
   \<and> period_get bus48 (fst (value_set bus48 46874 zeroed idle)) =
       spec_period bus48 (value_get (fst (value_set bus48 46874 zeroed idle)))
   \<and> frequency_get bus48 (fst (value_set bus48 46874 zeroed idle)) =
       spec_frequency bus48 (value_get (fst (value_set bus48 46874 zeroed idle)))
   \<and> value_get (fst (value_set bus48 46874 zeroed idle)) = 46874
   \<and> spec_period bus48 46874 = Some (1 / 1024)"
proof -
  have "period_set bus48 (1 / 1024) zeroed idle =
      Some (fst (value_set bus48 46874 zeroed idle), snd (value_set bus48 46874 zeroed idle))"
    by (simp add: period_set_example)
  then have "period_get bus48 (fst (value_set bus48 46874 zeroed idle)) =
       spec_period bus48 (value_get (fst (value_set bus48 46874 zeroed idle)))
     \<and> frequency_get bus48 (fst (value_set bus48 46874 zeroed idle)) =
       spec_frequency bus48 (value_get (fst (value_set bus48 46874 zeroed idle)))"
    using read_views_derived [where pf = bus48 and t' = "fst (value_set bus48 46874 zeroed idle)"
        and seconds = "1 / 1024" and t = zeroed and m = idle
        and m' = "snd (value_set bus48 46874 zeroed idle)", OF bus48_valueMin]
    by simp
  moreover have "value_get (fst (value_set bus48 46874 zeroed idle)) = 46874"
    by (simp add: fst_value_set value_get_def UINT32_MAX_def bus48_def)
  moreover have "spec_period bus48 46874 = Some (1 / 1024)"
    by code_simp
  ultimately show ?thesis
    by (simp add: period_set_example bus48_valueMin)
qed

section \<open>Rounding to a floating-point format\<close>

text \<open>
  \<open>ilog2\<close> finds the binade, \<open>round_even\<close> is within one half of its argument, and so
  \<open>fl\<close> is within half a unit in the last place of the exact result; it leaves the
  values of the format alone.
\<close>

lemma ilog2_bounds:
  assumes "x \<noteq> 0"
  shows "2 powi (ilog2 x) \<le> \<bar>x\<bar>" and "\<bar>x\<bar> < 2 powi (ilog2 x + 1)"
proof -
  obtain a b where q: "quotient_of \<bar>x\<bar> = (a, b)"
    by (cases "quotient_of \<bar>x\<bar>")
  then have b: "0 < b" and x: "\<bar>x\<bar> = of_int a / of_int b"
    by (simp_all add: quotient_of_denom_pos quotient_of_div)
  from assms have "0 < \<bar>x\<bar>" by simp
  with x b have a: "0 < a"
    by (simp add: zero_less_divide_iff)
  define la lb where "la = bitlen a" and "lb = bitlen b"
  have la: "1 \<le> la" and lb: "1 \<le> lb"
    using a b bitlen_eq_zero_iff [of a] bitlen_eq_zero_iff [of b] bitlen_nonneg [of a] bitlen_nonneg [of b]
    by (auto simp: la_def lb_def)
  have a_lo: "(2::rat) powi (la - 1) \<le> of_int a" and a_hi: "of_int a < (2::rat) powi la"
  proof -
    from bitlen_bounds [OF a] have "2 ^ nat (la - 1) \<le> a" and "a < 2 ^ nat la"
      by (simp_all add: la_def)
    then have "(of_int (2 ^ nat (la - 1)) :: rat) \<le> of_int a" and "(of_int a :: rat) < of_int (2 ^ nat la)"
      by (simp_all only: of_int_le_iff of_int_less_iff)
    then show "(2::rat) powi (la - 1) \<le> of_int a" and "of_int a < (2::rat) powi la"
      using la by (simp_all add: power_int_def)
  qed
  have b_lo: "(2::rat) powi (lb - 1) \<le> of_int b" and b_hi: "of_int b < (2::rat) powi lb"
  proof -
    from bitlen_bounds [OF b] have "2 ^ nat (lb - 1) \<le> b" and "b < 2 ^ nat lb"
      by (simp_all add: lb_def)
    then have "(of_int (2 ^ nat (lb - 1)) :: rat) \<le> of_int b" and "(of_int b :: rat) < of_int (2 ^ nat lb)"
      by (simp_all only: of_int_le_iff of_int_less_iff)
    then show "(2::rat) powi (lb - 1) \<le> of_int b" and "of_int b < (2::rat) powi lb"
      using lb by (simp_all add: power_int_def)
  qed
  have bpos: "(0::rat) < of_int b" using b by simp
  have lo: "(2::rat) powi (la - lb - 1) \<le> \<bar>x\<bar>"
  proof -
    have "(2::rat) powi (la - lb - 1) * of_int b \<le> 2 powi (la - lb - 1) * 2 powi lb"
      using b_hi by (intro mult_left_mono) (simp_all add: less_imp_le)
    also have "\<dots> = 2 powi (la - 1)"
      by (simp add: power_int_add [symmetric])
    also have "\<dots> \<le> of_int a" by (rule a_lo)
    finally show ?thesis
      using bpos by (simp add: x pos_le_divide_eq)
  qed
  have hi: "\<bar>x\<bar> < (2::rat) powi (la - lb + 1)"
  proof -
    have "of_int a < (2::rat) powi la" by (rule a_hi)
    also have "\<dots> = 2 powi (la - lb + 1) * 2 powi (lb - 1)"
      by (simp add: power_int_add [symmetric])
    also have "\<dots> \<le> 2 powi (la - lb + 1) * of_int b"
      using b_lo by (intro mult_left_mono) simp_all
    finally show ?thesis
      using bpos by (simp add: x pos_divide_less_eq)
  qed
  have il: "ilog2 x = (if 2 powi (la - lb) \<le> \<bar>x\<bar> then la - lb else la - lb - 1)"
    by (simp add: ilog2_def q la_def lb_def Let_def)
  show "2 powi (ilog2 x) \<le> \<bar>x\<bar>"
    using lo by (simp add: il)
  show "\<bar>x\<bar> < 2 powi (ilog2 x + 1)"
    using hi by (auto simp: il not_le)
qed

lemma ilog2_less:
  assumes "x \<noteq> 0" and "\<bar>x\<bar> < 2 powi k"
  shows "ilog2 x < k"
proof (rule ccontr)
  assume "\<not> ilog2 x < k"
  then have "(2::rat) powi k \<le> 2 powi (ilog2 x)"
    by (intro power_int_increasing) simp_all
  with ilog2_bounds(1) [OF assms(1)] assms(2) show False by simp
qed

lemma ilog2_ge:
  assumes "x \<noteq> 0" and "2 powi k \<le> \<bar>x\<bar>"
  shows "k \<le> ilog2 x"
proof (rule ccontr)
  assume "\<not> k \<le> ilog2 x"
  then have "(2::rat) powi (ilog2 x + 1) \<le> 2 powi k"
    by (intro power_int_increasing) simp_all
  with ilog2_bounds(2) [OF assms(1)] assms(2) show False by simp
qed

lemma round_even_error: "\<bar>of_int (round_even s) - s\<bar> \<le> 1 / 2"
proof -
  have "of_int \<lfloor>s\<rfloor> \<le> s" and "s < of_int \<lfloor>s\<rfloor> + 1"
    by linarith+
  then show ?thesis
    by (auto simp: round_even_def Let_def abs_le_iff)
qed

lemma round_even_of_int [simp]: "round_even (of_int n) = n"
  by (simp add: round_even_def)

lemma round_even_bound:
  assumes "\<bar>s\<bar> \<le> of_int n"
  shows "\<bar>round_even s\<bar> \<le> n"
proof -
  have lo: "- n \<le> \<lfloor>s\<rfloor>" using assms by (simp add: le_floor_iff abs_le_iff)
  have hi: "\<lfloor>s\<rfloor> \<le> n" using assms by (simp add: floor_le_iff abs_le_iff)
  have "\<lfloor>s\<rfloor> + 1 \<le> n" if "of_int \<lfloor>s\<rfloor> < s"
  proof -
    from that assms have "of_int \<lfloor>s\<rfloor> < (of_int n :: rat)" by (simp add: abs_le_iff)
    then show ?thesis by simp
  qed
  then show ?thesis
    using lo hi by (auto simp: round_even_def Let_def abs_le_iff)
qed

lemma powi_nonneg_int: "0 \<le> k \<Longrightarrow> (2::rat) powi k = of_int (2 ^ nat k)"
  by (simp add: power_int_def)

lemma two_powi_pos [simp]: "(0::rat) < 2 powi k"
  by simp

lemma two_powi_not_le0 [simp]: "\<not> (2::rat) powi k \<le> 0"
  by (simp add: not_le)

lemma two_powi_half: "(2::rat) powi (q - 1) = 2 powi q / 2"
  by (simp add: power_int_diff)

lemma two_powi_double: "(2::rat) powi (q + 1) = 2 * 2 powi q"
  by (simp add: power_int_add)

lemma fl_SomeD:
  assumes "fl fmt x = Some y" and "x \<noteq> 0"
  defines "q \<equiv> max (ilog2 x - (prec fmt - 1)) (qmin fmt)"
  shows "y = of_int (round_even (x / 2 powi q)) * 2 powi q"
    and "\<bar>y\<bar> < 2 powi (emax fmt + 1)"
  using assms by (auto simp: fl_def Let_def split: if_splits)

lemma fl_SomeI:
  assumes "x \<noteq> 0"
    and "y = of_int (round_even (x / 2 powi max (ilog2 x - (prec fmt - 1)) (qmin fmt)))
              * 2 powi max (ilog2 x - (prec fmt - 1)) (qmin fmt)"
    and "\<bar>y\<bar> < 2 powi (emax fmt + 1)"
  shows "fl fmt x = Some y"
  using assms by (simp add: fl_def Let_def)

lemma quantum_error:
  "\<bar>of_int (round_even (x / 2 powi q)) * 2 powi q - x\<bar> \<le> 2 powi (q - 1)"
proof -
  define u :: rat where "u = 2 powi q"
  have u: "0 < u" by (simp add: u_def)
  have "of_int (round_even (x / u)) * u - x = (of_int (round_even (x / u)) - x / u) * u"
    using u by (simp add: algebra_simps)
  then have "\<bar>of_int (round_even (x / u)) * u - x\<bar> = \<bar>of_int (round_even (x / u)) - x / u\<bar> * u"
    using u by (simp add: abs_mult)
  also have "\<dots> \<le> 1 / 2 * u"
    using u round_even_error [of "x / u"] by (intro mult_right_mono) simp_all
  finally show ?thesis
    by (simp add: u_def two_powi_half)
qed

lemma fl_abs_error:
  assumes "\<bar>x\<bar> < 2 powi k" and "qmin fmt \<le> k - prec fmt" and "k \<le> emax fmt"
    and "0 \<le> prec fmt"
  shows "\<exists>y. fl fmt x = Some y \<and> \<bar>y - x\<bar> \<le> 2 powi (k - prec fmt - 1)"
proof (cases "x = 0")
  case True
  then show ?thesis by (simp add: fl_def less_imp_le)
next
  case False
  define q where "q = max (ilog2 x - (prec fmt - 1)) (qmin fmt)"
  define y :: rat where "y = of_int (round_even (x / 2 powi q)) * 2 powi q"
  have "ilog2 x < k" using False assms(1) by (rule ilog2_less)
  with assms(2) have q: "q \<le> k - prec fmt" by (simp add: q_def)
  have "\<bar>y - x\<bar> \<le> 2 powi (q - 1)"
    unfolding y_def by (rule quantum_error)
  also have "\<dots> \<le> 2 powi (k - prec fmt - 1)"
    using q by (intro power_int_increasing) simp_all
  finally have err: "\<bar>y - x\<bar> \<le> 2 powi (k - prec fmt - 1)" .
  have "qmin fmt \<le> q" by (simp add: q_def)
  have "(2::rat) powi (k - prec fmt - 1) \<le> 2 powi k"
  proof -
    from assms(4) have "k - prec fmt - 1 \<le> k" by linarith
    then show ?thesis by (intro power_int_increasing) simp_all
  qed
  with err assms(1) have "\<bar>y\<bar> < 2 powi k + 2 powi k" by linarith
  also have "\<dots> = 2 powi (k + 1)" by (simp add: two_powi_double)
  also have "\<dots> \<le> 2 powi (emax fmt + 1)"
    using assms(3) by (intro power_int_increasing) simp_all
  finally have "\<bar>y\<bar> < 2 powi (emax fmt + 1)" .
  then have "fl fmt x = Some y"
    using False by (intro fl_SomeI) (simp_all add: y_def q_def)
  with err show ?thesis by blast
qed

lemma fl_rel_error:
  assumes "2 powi (qmin fmt + prec fmt - 1) \<le> \<bar>x\<bar>" and "\<bar>x\<bar> < 2 powi emax fmt" and "0 \<le> prec fmt"
  shows "\<exists>y. fl fmt x = Some y \<and> \<bar>y - x\<bar> \<le> \<bar>x\<bar> * 2 powi (- prec fmt)"
proof -
  have nz: "x \<noteq> 0"
    using assms(1) by auto
  define q where "q = max (ilog2 x - (prec fmt - 1)) (qmin fmt)"
  define y :: rat where "y = of_int (round_even (x / 2 powi q)) * 2 powi q"
  have "qmin fmt + prec fmt - 1 \<le> ilog2 x" using nz assms(1) by (rule ilog2_ge)
  then have q: "q = ilog2 x - prec fmt + 1" by (simp add: q_def)
  have "\<bar>y - x\<bar> \<le> 2 powi (q - 1)"
    unfolding y_def by (rule quantum_error)
  also have "\<dots> = 2 powi (ilog2 x) * 2 powi (- prec fmt)"
    by (simp add: q power_int_add [symmetric])
  also have "\<dots> \<le> \<bar>x\<bar> * 2 powi (- prec fmt)"
    using ilog2_bounds(1) [OF nz] by (intro mult_right_mono) simp_all
  finally have err: "\<bar>y - x\<bar> \<le> \<bar>x\<bar> * 2 powi (- prec fmt)" .
  have "(2::rat) powi (- prec fmt) \<le> 2 powi 0"
    using assms(3) by (intro power_int_increasing) simp_all
  then have "\<bar>x\<bar> * 2 powi (- prec fmt) \<le> \<bar>x\<bar> * 1"
    by (intro mult_left_mono) simp_all
  with err have "\<bar>y\<bar> \<le> \<bar>x\<bar> + \<bar>x\<bar>" by linarith
  also have "\<dots> < 2 powi emax fmt + 2 powi emax fmt" using assms(2) by linarith
  also have "\<dots> = 2 powi (emax fmt + 1)" by (simp add: two_powi_double)
  finally have "\<bar>y\<bar> < 2 powi (emax fmt + 1)" .
  then have "fl fmt x = Some y"
    using nz by (intro fl_SomeI) (simp_all add: y_def q_def)
  with err show ?thesis by blast
qed

lemma fl_exact_strict:
  assumes x: "x = of_int M * 2 powi k" and M: "\<bar>M\<bar> < 2 ^ nat (prec fmt)"
    and k: "qmin fmt \<le> k" and p: "0 \<le> prec fmt" and r: "\<bar>x\<bar> < 2 powi (emax fmt + 1)"
  shows "fl fmt x = Some x"
proof (cases "x = 0")
  case True
  then show ?thesis by (simp add: fl_def)
next
  case False
  define q where "q = max (ilog2 x - (prec fmt - 1)) (qmin fmt)"
  have "\<bar>x\<bar> = of_int \<bar>M\<bar> * 2 powi k"
    by (simp add: x abs_mult)
  also have "\<dots> < of_int (2 ^ nat (prec fmt)) * 2 powi k"
    using M by (intro mult_strict_right_mono) (simp_all only: of_int_less_iff two_powi_pos)
  also have "\<dots> = 2 powi (prec fmt + k)"
    using p by (simp add: power_int_add powi_nonneg_int)
  finally have "ilog2 x < prec fmt + k"
    using False by (intro ilog2_less)
  with k have q: "q \<le> k" by (simp add: q_def)
  have "x / 2 powi q = of_int M * 2 powi (k - q)"
    by (simp add: x power_int_diff)
  also have "\<dots> = of_int (M * 2 ^ nat (k - q))"
    using q by (simp add: powi_nonneg_int)
  finally have xi: "x / 2 powi q = of_int (M * 2 ^ nat (k - q))" .
  have "round_even (x / 2 powi q) = M * 2 ^ nat (k - q)"
    by (simp only: xi round_even_of_int)
  then have "(of_int (round_even (x / 2 powi q)) :: rat) * 2 powi q = x / 2 powi q * 2 powi q"
    by (simp only: xi)
  also have "\<dots> = x"
    by simp
  finally show ?thesis
    using False r by (intro fl_SomeI) (simp_all add: q_def)
qed

lemma fl_exact:
  assumes x: "x = of_int M * 2 powi k" and M: "\<bar>M\<bar> \<le> 2 ^ nat (prec fmt)"
    and k: "qmin fmt \<le> k" and p: "1 \<le> prec fmt" and r: "\<bar>x\<bar> < 2 powi (emax fmt + 1)"
  shows "fl fmt x = Some x"
proof (cases "\<bar>M\<bar> < 2 ^ nat (prec fmt)")
  case True
  with x k p r show ?thesis by (intro fl_exact_strict [of x M k]) simp_all
next
  case False
  with M have eq: "\<bar>M\<bar> = 2 ^ nat (prec fmt)" by simp
  from p obtain n where n: "nat (prec fmt) = Suc n"
    by (cases "nat (prec fmt)") simp_all
  define M' where "M' = sgn M * 2 ^ n"
  have "M = sgn M * \<bar>M\<bar>" by (simp add: mult_sgn_abs)
  then have MM: "M = 2 * M'" by (simp add: eq n M'_def)
  have x': "x = of_int M' * 2 powi (k + 1)"
    by (simp add: x MM two_powi_double)
  have "\<bar>M'\<bar> \<le> 2 ^ n" by (simp add: M'_def abs_mult abs_sgn_eq)
  also have "\<dots> < (2::int) ^ nat (prec fmt)" by (simp add: n)
  finally show ?thesis
    using x' k p r by (intro fl_exact_strict [of x M' "k + 1"]) simp_all
qed

lemma fl_idem:
  assumes "fl fmt z = Some y" and p: "1 \<le> prec fmt"
  shows "fl fmt y = Some y"
proof (cases "z = 0")
  case True
  with assms show ?thesis by (simp add: fl_def)
next
  case False
  define q where "q = max (ilog2 z - (prec fmt - 1)) (qmin fmt)"
  define M where "M = round_even (z / 2 powi q)"
  from fl_SomeD [OF assms(1) False]
  have y: "y = of_int M * 2 powi q" and r: "\<bar>y\<bar> < 2 powi (emax fmt + 1)"
    by (simp_all add: M_def q_def)
  have "\<bar>z / 2 powi q\<bar> = \<bar>z\<bar> / 2 powi q"
    by simp
  also have "\<dots> \<le> 2 powi (ilog2 z + 1) / 2 powi q"
    using ilog2_bounds(2) [OF False] by (intro divide_right_mono) simp_all
  also have "\<dots> = 2 powi (ilog2 z + 1 - q)"
    by (simp add: power_int_diff)
  also have "\<dots> \<le> 2 powi (prec fmt)"
    by (intro power_int_increasing) (simp_all add: q_def)
  also have "\<dots> = of_int (2 ^ nat (prec fmt))"
    using p by (simp add: powi_nonneg_int)
  finally have "\<bar>M\<bar> \<le> 2 ^ nat (prec fmt)"
    unfolding M_def by (rule round_even_bound)
  moreover have "qmin fmt \<le> q" by (simp add: q_def)
  ultimately show ?thesis
    using y p r by (intro fl_exact [of y M q]) simp_all
qed

lemma fl_grid:
  assumes "fl fmt y = Some y" and "2 powi e \<le> \<bar>y\<bar>"
  shows "\<exists>N. y = of_int N * 2 powi (e - (prec fmt - 1))"
proof -
  have nz: "y \<noteq> 0"
    using assms(2) by auto
  define q where "q = max (ilog2 y - (prec fmt - 1)) (qmin fmt)"
  define M where "M = round_even (y / 2 powi q)"
  from fl_SomeD(1) [OF assms(1) nz] have y: "y = of_int M * 2 powi q"
    by (simp add: M_def q_def)
  have "e \<le> ilog2 y" using nz assms(2) by (rule ilog2_ge)
  then have q: "e - (prec fmt - 1) \<le> q" by (simp add: q_def)
  have "y = of_int M * (2 powi (q - (e - (prec fmt - 1))) * 2 powi (e - (prec fmt - 1)))"
    by (simp add: y power_int_add [symmetric])
  also have "\<dots> = of_int (M * 2 ^ nat (q - (e - (prec fmt - 1)))) * 2 powi (e - (prec fmt - 1))"
    using q by (simp add: powi_nonneg_int)
  finally show ?thesis by blast
qed

section \<open>The write paths in single precision\<close>

text \<open>
  Up to \<open>2\<^sup>2\<^sup>4\<close> every integer is a single-precision number. As long as the rounded
  product or quotient stays in this range, \<^verbatim>\<open>round\<close>, the subtraction of 1 and the
  conversion to \<^verbatim>\<open>uint32_t\<close> are exact.
\<close>

lemma fl32_of_int:
  assumes "\<bar>n\<bar> \<le> 2 ^ 24"
  shows "fl binary32 (of_int n) = Some (of_int n)"
proof -
  have "\<bar>(of_int n :: rat)\<bar> \<le> of_int (2 ^ 24)"
    using assms by (simp only: of_int_abs [symmetric] of_int_le_iff)
  also have "\<dots> < 2 powi (emax binary32 + 1)"
    by (simp add: binary32_def)
  finally show ?thesis
    using assms by (intro fl_exact [of _ n 0]) (simp_all add: binary32_def)
qed

lemma int_to_float_1: "int_to_float 1 = Some 1"
  using fl32_of_int [of 1] by (simp add: int_to_float_def)

lemma round_f_exact:
  assumes x: "fl binary32 x = Some x" and lo: "1 / 2 \<le> x" and hi: "\<lfloor>x + 1 / 2\<rfloor> \<le> 2 ^ 24"
  shows "round_f x = Some (of_int \<lfloor>x + 1 / 2\<rfloor>)"
proof -
  have "(2::rat) powi (- 1) \<le> \<bar>x\<bar>"
    using lo by (simp add: power_int_minus)
  from fl_grid [OF x this] obtain N where N: "x = of_int N * 2 powi (- 24)"
    by (auto simp: binary32_def)
  have upper: "x + 1 / 2 < 2 ^ 24 + 1"
  proof -
    have "x + 1 / 2 < of_int \<lfloor>x + 1 / 2\<rfloor> + 1" by linarith
    also have "\<dots> \<le> of_int (2 ^ 24) + 1"
      using hi by (simp only: add_le_cancel_right of_int_le_iff)
    finally show ?thesis by simp
  qed
  have sum: "x + 1 / 2 = of_int (N + 2 ^ 23) * 2 powi (- 24)"
    by (simp add: N power_int_minus algebra_simps)
  have "of_int (N + 2 ^ 23) = (x + 1 / 2) * 2 ^ 24"
    by (simp add: sum power_int_minus)
  also have "\<dots> < (2 ^ 24 + 1) * 2 ^ 24"
    using upper by simp
  finally have "(of_int (N + 2 ^ 23) :: rat) < of_int ((2 ^ 24 + 1) * 2 ^ 24)"
    by simp
  then have N_hi: "N + 2 ^ 23 < (2 ^ 24 + 1) * 2 ^ 24"
    by (simp only: of_int_less_iff)
  have "0 \<le> (x + 1 / 2) * 2 ^ 24"
    using lo by simp
  also have "\<dots> = of_int (N + 2 ^ 23)"
    by (simp add: sum power_int_minus)
  finally have N_lo: "0 \<le> N + 2 ^ 23"
    by (simp only: of_int_0_le_iff)
  have "fl binary64 (x + 1 / 2) = Some (x + 1 / 2)"
  proof (rule fl_exact [of _ "N + 2 ^ 23" "- 24"])
    show "x + 1 / 2 = of_int (N + 2 ^ 23) * 2 powi (- 24)" by (rule sum)
    show "\<bar>N + 2 ^ 23\<bar> \<le> 2 ^ nat (prec binary64)"
      using N_lo N_hi by (simp add: binary64_def)
    show "qmin binary64 \<le> - 24" by (simp add: binary64_def)
    show "1 \<le> prec binary64" by (simp add: binary64_def)
    have "\<bar>x + 1 / 2\<bar> < 2 ^ 24 + 1" using upper lo by simp
    also have "\<dots> \<le> (2::rat) powi (emax binary64 + 1)"
      by (simp add: binary64_def)
    finally show "\<bar>x + 1 / 2\<bar> < 2 powi (emax binary64 + 1)" .
  qed
  moreover have "fl binary32 (of_int \<lfloor>x + 1 / 2\<rfloor>) = Some (of_int \<lfloor>x + 1 / 2\<rfloor>)"
  proof (rule fl32_of_int)
    have "0 \<le> \<lfloor>x + 1 / 2\<rfloor>" using lo by simp
    with hi show "\<bar>\<lfloor>x + 1 / 2\<rfloor>\<bar> \<le> 2 ^ 24" by simp
  qed
  ultimately show ?thesis
    by (simp add: round_f_def)
qed

lemma float_to_uint32_of_int:
  assumes "0 \<le> n" and "n < 2 ^ 32"
  shows "float_to_uint32 (of_int n) = Some (word_of_int n)"
  using assms by (simp add: float_to_uint32_def trunc_def)

text \<open>The tail shared by the two setters: round, subtract one, convert.\<close>

lemma round_minus_one:
  assumes x: "fl binary32 x = Some x" and lo: "1 / 2 \<le> x" and hi: "\<lfloor>x + 1 / 2\<rfloor> \<le> 2 ^ 24"
  shows "(round_f x \<bind> (\<lambda>r. int_to_float 1 \<bind> (\<lambda>one. fsub r one \<bind> float_to_uint32)))
         = Some (word_of_int (\<lfloor>x + 1 / 2\<rfloor> - 1))"
proof -
  define n where "n = \<lfloor>x + 1 / 2\<rfloor>"
  have n1: "1 \<le> n" using lo by (simp add: n_def le_floor_iff)
  have "fsub (of_int n) 1 = fl binary32 (of_int (n - 1))"
    by (simp add: fsub_def)
  also have "\<dots> = Some (of_int (n - 1))"
    using n1 hi by (intro fl32_of_int) (simp add: n_def)
  finally have sub: "fsub (of_int n) 1 = Some (of_int (n - 1))" .
  have conv: "float_to_uint32 (of_int (n - 1)) = Some (word_of_int (n - 1))"
    using n1 hi by (intro float_to_uint32_of_int) (simp_all add: n_def)
  show ?thesis
    using round_f_exact [OF x lo hi] sub conv
    by (simp add: int_to_float_1 n_def)
qed

lemma prec_binary32: "1 \<le> prec binary32"
  by (simp add: binary32_def)

lemma frequency_newValue_exact:
  assumes f: "int_to_float (F_BUS pf) = Some f" and q: "fdiv f hz = Some q"
    and lo: "1 / 2 \<le> q" and hi: "\<lfloor>q + 1 / 2\<rfloor> \<le> 2 ^ 24"
  shows "frequency_newValue pf hz = Some (word_of_int (\<lfloor>q + 1 / 2\<rfloor> - 1))"
proof -
  from q have "fl binary32 (f / hz) = Some q"
    by (simp add: fdiv_def split: if_splits)
  then have "fl binary32 q = Some q"
    using prec_binary32 by (rule fl_idem)
  from round_minus_one [OF this lo hi] show ?thesis
    by (simp add: frequency_newValue_def f q)
qed

lemma period_newValue_exact:
  assumes f: "int_to_float (F_BUS pf) = Some f" and x: "fmul f p = Some x"
    and lo: "1 / 2 \<le> x" and hi: "\<lfloor>x + 1 / 2\<rfloor> \<le> 2 ^ 24"
  shows "period_newValue pf p = Some (word_of_int (\<lfloor>x + 1 / 2\<rfloor> - 1))"
proof -
  from x have "fl binary32 (f * p) = Some x"
    by (simp add: fmul_def)
  then have "fl binary32 x = Some x"
    using prec_binary32 by (rule fl_idem)
  from round_minus_one [OF this lo hi] show ?thesis
    by (simp add: period_newValue_def f x)
qed

lemma frequency_newValue_cong:
  "F_BUS pf = F_BUS pf' \<Longrightarrow> frequency_newValue pf hz = frequency_newValue pf' hz"
  by (simp add: frequency_newValue_def)

lemma period_newValue_cong:
  "F_BUS pf = F_BUS pf' \<Longrightarrow> period_newValue pf p = period_newValue pf' p"
  by (simp add: period_newValue_def)

text \<open>The scenarios of the specification, evaluated.\<close>

lemma F_BUS_bus48: "F_BUS bus48 = 48000000"
  by (simp add: bus48_def)

lemma frequency_newValue_1: "frequency_newValue bus48 1 = Some 48000000"
  by code_simp

lemma period_newValue_1: "period_newValue bus48 1 = Some 48000000"
  by code_simp

lemma period_newValue_0: "period_newValue bus48 0 = None"
  by code_simp

lemma is_float32_examples: "is_float32 0" "is_float32 1" "is_float32 1000" "is_float32 (359 / 8)"
  by code_simp+

lemma spec_raw_examples:
  "spec_period_raw bus48 1 = 47999999" "spec_frequency_raw bus48 1 = 47999999"
  "spec_frequency_raw bus48 1000 = 47999"
  by code_simp+

lemma fdiv_examples: "fdiv 48000000 1000 = Some 48000" "int_to_float 48000000 = Some 48000000"
  by code_simp+

lemma round_trip_example:
  "period_newValue bus48 (359 / 8) = Some 2153999872"
  "period_get bus48 (zeroed\<lparr>myValue := 2153999872\<rparr>) = Some (11763711 / 262144)"
  by code_simp+

lemma int_to_float_bus48: "int_to_float (F_BUS bus48) = Some (of_int (F_BUS bus48))"
  using fdiv_examples(2) by (simp add: F_BUS_bus48)

lemma floor_of_int_add_half: "\<lfloor>(of_int n :: rat) + 1 / 2\<rfloor> = n"
  by linarith

text \<open>
  Claim C2. \<^verbatim>\<open>period(seconds)\<close> computes \<open>round(F_BUS * seconds) - 1\<close> with \<open>round x\<close> being
  \<open>floor (x + 0.5)\<close> and hands it to \<^verbatim>\<open>value(uint32_t)\<close>; on a 48 MHz bus the
  specification expects the raw value 47,999,999 for one second. The code subtracts 1
  from a \<^verbatim>\<open>float\<close>: 47,999,999 is not a single-precision number, the difference rounds
  back to 48,000,000, and that is the value stored.
\<close>

theorem period_one_second:
  assumes "F_BUS pf = 48000000" and "valueMin pf \<le> 48000000"
  shows "is_float32 1
     \<and> period_newValue pf 1 = Some 48000000
     \<and> period_set pf 1 t m = Some (value_set pf 48000000 t m)
     \<and> value_get (fst (value_set pf 48000000 t m)) = 48000000
     \<and> spec_period_raw pf 1 = 47999999"
proof -
  have "period_newValue pf 1 = period_newValue bus48 1"
    using assms(1) by (intro period_newValue_cong) (simp add: F_BUS_bus48)
  then have nv: "period_newValue pf 1 = Some 48000000"
    by (simp add: period_newValue_1)
  have "\<not> (48000000 :: 32 word) < valueMin pf"
    using assms(2) by (simp add: not_less)
  then have stored: "value_get (fst (value_set pf 48000000 t m)) = 48000000"
    by (simp add: fst_value_set value_get_def UINT32_MAX_def)
  have "spec_period_raw pf 1 = F_BUS pf - 1"
    by (simp add: spec_period_raw_def floor_of_int_add_half)
  then have spec: "spec_period_raw pf 1 = 47999999"
    using assms(1) by simp
  show ?thesis
    using nv stored spec by (simp add: period_set_def is_float32_examples)
qed

theorem period_one_second_witness:
  "F_BUS bus48 = 48000000 \<and> valueMin bus48 \<le> 48000000
   \<and> period_set bus48 1 zeroed idle = Some (value_set bus48 48000000 zeroed idle)
   \<and> value_get (fst (value_set bus48 48000000 zeroed idle)) = 48000000
   \<and> spec_period_raw bus48 1 = 47999999"
proof -
  have "F_BUS bus48 = 48000000" and "valueMin bus48 \<le> 48000000"
    by (simp_all add: bus48_def)
  from this period_one_second [OF this, of zeroed idle] show ?thesis
    by simp
qed

text \<open>
  Claim C5, as stated, fails: \<open>round(F_BUS / hz) - 1\<close> in exact arithmetic is 47,999,999
  for 1 Hz on a 48 MHz bus, and the code stores 48,000,000; for \<open>hz = 1/1024\<close> the
  quotient is beyond \<^verbatim>\<open>uint32_t\<close> and the conversion undefined.
\<close>

theorem frequency_counterexample:
  "is_float32 1 \<and> (0::rat) < 1
   \<and> frequency_newValue bus48 1 = Some 48000000
   \<and> frequency_newValue bus48 1 \<noteq> Some (word_of_int (spec_frequency_raw bus48 1))
   \<and> is_float32 (1 / 1024) \<and> (0::rat) < 1 / 1024
   \<and> frequency_set bus48 (1 / 1024) zeroed idle = None"
proof -
  have "frequency_newValue bus48 (1 / 1024) = None"
    by code_simp
  then have "frequency_set bus48 (1 / 1024) zeroed idle = None"
    by (simp add: frequency_set_def)
  moreover have "is_float32 (1 / 1024)"
    by code_simp
  ultimately show ?thesis
    by (simp add: is_float32_examples frequency_newValue_1 spec_raw_examples)
qed

text \<open>
  Claim C5, amended. Let \<open>q\<close> be the single-precision quotient of \<^verbatim>\<open>F_BUS\<close> and \<open>hz\<close>.
  Whenever \<open>1 \<le> floor (q + 0.5) \<le> 2\<^sup>2\<^sup>4\<close>, \<^verbatim>\<open>frequency(hz)\<close> hands \<open>floor (q + 0.5) - 1\<close> to
  \<^verbatim>\<open>value(uint32_t)\<close>; on a 48 MHz bus with \<open>valueMin \<le> 47999\<close>, \<^verbatim>\<open>frequency(1000.0)\<close>
  stores exactly 47,999.
\<close>

theorem frequency_set_exact:
  "(\<forall>f q. int_to_float (F_BUS pf) = Some f \<and> fdiv f hz = Some q
        \<and> 1 / 2 \<le> q \<and> \<lfloor>q + 1 / 2\<rfloor> \<le> 2 ^ 24 \<longrightarrow>
      frequency_newValue pf hz = Some (word_of_int (\<lfloor>q + 1 / 2\<rfloor> - 1))
      \<and> frequency_set pf hz t m = Some (value_set pf (word_of_int (\<lfloor>q + 1 / 2\<rfloor> - 1)) t m))
   \<and> (F_BUS pf = 48000000 \<and> valueMin pf \<le> 47999 \<longrightarrow>
      frequency_set pf 1000 t m = Some (value_set pf 47999 t m)
      \<and> value_get (fst (value_set pf 47999 t m)) = 47999)"
proof (intro conjI allI impI)
  fix f q
  assume h: "int_to_float (F_BUS pf) = Some f \<and> fdiv f hz = Some q
        \<and> 1 / 2 \<le> q \<and> \<lfloor>q + 1 / 2\<rfloor> \<le> 2 ^ 24"
  then show nv: "frequency_newValue pf hz = Some (word_of_int (\<lfloor>q + 1 / 2\<rfloor> - 1))"
    by (intro frequency_newValue_exact [of pf f hz q]) simp_all
  then show "frequency_set pf hz t m = Some (value_set pf (word_of_int (\<lfloor>q + 1 / 2\<rfloor> - 1)) t m)"
    by (simp add: frequency_set_def)
next
  assume h: "F_BUS pf = 48000000 \<and> valueMin pf \<le> 47999"
  then have "frequency_newValue pf 1000 = frequency_newValue bus48 1000"
    by (intro frequency_newValue_cong) (simp add: F_BUS_bus48)
  then show "frequency_set pf 1000 t m = Some (value_set pf 47999 t m)"
    by (simp add: frequency_set_def frequency_newValue_example)
  from h have "\<not> (47999 :: 32 word) < valueMin pf"
    by (simp add: not_less)
  then show "value_get (fst (value_set pf 47999 t m)) = 47999"
    by (simp add: fst_value_set value_get_def UINT32_MAX_def)
qed

theorem frequency_set_exact_witness:
  "int_to_float (F_BUS bus48) = Some 48000000 \<and> fdiv 48000000 1000 = Some 48000
   \<and> (1 / 2 :: rat) \<le> 48000 \<and> \<lfloor>48000 + 1 / 2 :: rat\<rfloor> \<le> 2 ^ 24
   \<and> F_BUS bus48 = 48000000 \<and> valueMin bus48 \<le> 47999
   \<and> frequency_set bus48 1000 zeroed idle = Some (value_set bus48 47999 zeroed idle)
   \<and> value_get (fst (value_set bus48 47999 zeroed idle)) = 47999"
proof -
  have h: "int_to_float (F_BUS bus48) = Some 48000000" "fdiv 48000000 1000 = Some 48000"
    "(1 / 2 :: rat) \<le> 48000" "\<lfloor>48000 + 1 / 2 :: rat\<rfloor> \<le> 2 ^ 24"
    "F_BUS bus48 = 48000000" "valueMin bus48 \<le> 47999"
    by (simp_all add: F_BUS_bus48 fdiv_examples) (simp add: bus48_def)
  have "\<lfloor>48000 + 1 / 2 :: rat\<rfloor> - 1 = 47999"
    using floor_of_int_add_half [of 48000] by simp
  with h frequency_set_exact [of bus48 1000 zeroed idle] show ?thesis
    by simp
qed

lemma fl32_minus_one: "fl binary32 (- 1) = Some (- 1)"
  using fl32_of_int [of "- 1"] by simp

lemma float_to_uint32_minus_one: "float_to_uint32 (- 1) = None"
  by (simp add: float_to_uint32_def trunc_def)

text \<open>
  Claim C10, as stated, fails: for \<^verbatim>\<open>period(0.0)\<close> the specification expects the stored
  value \<open>UINT32_MAX - 1\<close>, by an unsigned subtraction that wraps around. The subtraction
  is a \<^verbatim>\<open>float\<close> subtraction; its result \<open>-1.0\<close> has no \<^verbatim>\<open>uint32_t\<close> value, and the code
  determines no stored value.
\<close>

theorem period_zero_counterexample:
  "is_float32 0
   \<and> period_newValue bus48 0 = None
   \<and> period_set bus48 0 zeroed idle = None
   \<and> map_option (\<lambda>r. value_get (fst r)) (period_set bus48 0 zeroed idle) \<noteq> Some (UINT32_MAX - 1)"
  by (simp add: is_float32_examples period_newValue_0 period_set_def)

text \<open>
  Claim C10, amended. For every period \<open>p\<close> whose single-precision product with \<^verbatim>\<open>F_BUS\<close>
  is rounded to 0 by \<^verbatim>\<open>round\<close>, the subtraction gives the \<^verbatim>\<open>float\<close> \<open>-1.0\<close>, whose
  conversion to \<^verbatim>\<open>uint32_t\<close> is undefined: \<^verbatim>\<open>period(p)\<close> has no defined result, neither
  \<open>UINT32_MAX - 1\<close> nor \<open>valueMin\<close>.
\<close>

theorem period_rounding_to_zero:
  assumes "int_to_float (F_BUS pf) = Some f" and "fmul f p = Some x" and "round_f x = Some 0"
  shows "fsub 0 1 = Some (- 1) \<and> float_to_uint32 (- 1) = None
     \<and> period_newValue pf p = None \<and> period_set pf p t m = None"
proof -
  have sub: "fsub 0 1 = Some (- 1)"
    by (simp add: fsub_def fl32_minus_one)
  then have "period_newValue pf p = None"
    using assms by (simp add: period_newValue_def int_to_float_1 float_to_uint32_minus_one)
  then show ?thesis
    using sub by (simp add: period_set_def float_to_uint32_minus_one)
qed

lemma tiny_period_example:
  "is_float32 (1 / 1073741824)" "fmul 48000000 (1 / 1073741824) = Some (46875 / 1048576)"
  "round_f (46875 / 1048576) = Some 0" "round_f 0 = Some 0" "fmul 48000000 0 = Some 0"
  by code_simp+

theorem period_rounding_to_zero_witness:
  "int_to_float (F_BUS bus48) = Some 48000000
   \<and> fmul 48000000 0 = Some 0 \<and> round_f 0 = Some 0
   \<and> period_set bus48 0 zeroed idle = None
   \<and> is_float32 (1 / 1073741824) \<and> fmul 48000000 (1 / 1073741824) = Some (46875 / 1048576)
   \<and> round_f (46875 / 1048576) = Some 0
   \<and> period_set bus48 (1 / 1073741824) zeroed idle = None"
proof -
  have f: "int_to_float (F_BUS bus48) = Some 48000000"
    using int_to_float_bus48 by (simp add: F_BUS_bus48)
  from period_rounding_to_zero [OF f tiny_period_example(5) tiny_period_example(4), of zeroed idle]
    period_rounding_to_zero [OF f tiny_period_example(2) tiny_period_example(3), of zeroed idle]
  show ?thesis
    using f by (simp add: tiny_period_example)
qed

section \<open>The round trip through the period\<close>

lemma uint_word_of_int_32:
  assumes "0 \<le> n" and "n < 2 ^ 32"
  shows "uint (word_of_int n :: 32 word) = n"
  using assms by (simp add: uint_word_of_int)

lemma value_set_unclamped:
  assumes "uint (valueMin pf) \<le> n" and "n < 2 ^ 32 - 1"
  shows "value_get (fst (value_set pf (word_of_int n) t m)) = word_of_int n"
proof -
  have "0 \<le> uint (valueMin pf)" by simp
  with assms have n: "0 \<le> n" "n < 2 ^ 32" by linarith+
  have u: "uint (word_of_int n :: 32 word) = n"
    using n by (rule uint_word_of_int_32)
  have "(word_of_int n :: 32 word) \<noteq> UINT32_MAX"
  proof
    assume "(word_of_int n :: 32 word) = UINT32_MAX"
    then have "uint (word_of_int n :: 32 word) = uint UINT32_MAX" by simp
    with u assms(2) show False by (simp add: UINT32_MAX_def)
  qed
  moreover have "\<not> (word_of_int n :: 32 word) < valueMin pf"
    using assms(1) u by (simp add: word_less_def)
  ultimately show ?thesis
    by (simp add: fst_value_set value_get_def)
qed

text \<open>
  Claim C7, as stated, fails: on a 48 MHz bus the period 44.875 s, a single-precision
  number within the range of the timer, is read back as 11763711/262144 s, which is
  off by more than 183 bus cycles.
\<close>

theorem period_round_trip_counterexample:
  "is_float32 (359 / 8)
   \<and> period_set bus48 (359 / 8) zeroed idle = Some (value_set bus48 2153999872 zeroed idle)
   \<and> value_get (fst (value_set bus48 2153999872 zeroed idle)) = 2153999872
   \<and> period_get bus48 (fst (value_set bus48 2153999872 zeroed idle)) = Some (11763711 / 262144)
   \<and> \<not> \<bar>11763711 / 262144 - 359 / 8 :: rat\<bar> \<le> 1 / 48000000"
proof -
  have "period_set bus48 (359 / 8) zeroed idle = Some (value_set bus48 2153999872 zeroed idle)"
    by (simp add: period_set_def round_trip_example)
  moreover have fst: "fst (value_set bus48 2153999872 zeroed idle) = zeroed\<lparr>myValue := 2153999872\<rparr>"
    by (simp add: fst_value_set UINT32_MAX_def bus48_def)
  ultimately show ?thesis
    by (simp add: is_float32_examples round_trip_example value_get_def)
qed

text \<open>
  The rounded value is the nearest point of the grid of its binade, and no value of the
  format is nearer to the exact result.
\<close>

lemma round_even_nearest: "\<bar>of_int (round_even s) - s\<bar> \<le> \<bar>of_int N - s\<bar>"
proof (cases "N = round_even s")
  case True
  then show ?thesis by simp
next
  case False
  then have "1 \<le> \<bar>N - round_even s\<bar>" by linarith
  then have "(1::rat) \<le> of_int \<bar>N - round_even s\<bar>"
    by (simp only: of_int_1_le_iff)
  then have "(1::rat) \<le> \<bar>of_int N - of_int (round_even s)\<bar>"
    by simp
  with round_even_error [of s] show ?thesis by linarith
qed

lemma quantum_nearest:
  "\<bar>of_int (round_even (y / 2 powi q)) * 2 powi q - y\<bar> \<le> \<bar>of_int N * 2 powi q - y\<bar>"
proof -
  define u :: rat where "u = 2 powi q"
  have u: "0 < u" by (simp add: u_def)
  have a: "\<bar>of_int K * u - y\<bar> = \<bar>of_int K - y / u\<bar> * u" for K :: int
  proof -
    have "of_int K * u - y = (of_int K - y / u) * u" using u by (simp add: algebra_simps)
    then show ?thesis using u by (simp add: abs_mult)
  qed
  have "\<bar>of_int (round_even (y / u)) - y / u\<bar> * u \<le> \<bar>of_int N - y / u\<bar> * u"
    using u round_even_nearest [of "y / u" N] by (intro mult_right_mono) simp_all
  then have "\<bar>of_int (round_even (y / u)) * u - y\<bar> \<le> \<bar>of_int N * u - y\<bar>"
    by (simp only: a)
  then show ?thesis
    by (simp only: u_def)
qed

lemma fl_pos:
  assumes "fl fmt z = Some x" and "0 < x"
  shows "0 < z"
proof (rule ccontr)
  assume "\<not> 0 < z"
  then have z: "z \<le> 0" by simp
  have nz: "z \<noteq> 0"
    using assms by (auto simp: fl_def)
  define q where "q = max (ilog2 z - (prec fmt - 1)) (qmin fmt)"
  from fl_SomeD(1) [OF assms(1) nz] have "x = of_int (round_even (z / 2 powi q)) * 2 powi q"
    by (simp add: q_def)
  with quantum_nearest [of z q 0] have "\<bar>x - z\<bar> \<le> \<bar>z\<bar>" by simp
  with z assms(2) show False by linarith
qed

text \<open>A single-precision result in the normal range: its grid, its error, its optimality.\<close>

lemma fl32_normal:
  assumes "fl binary32 y = Some g" and "2 powi (- 126) \<le> \<bar>y\<bar>"
  shows "\<exists>G. g = of_int G * 2 powi (ilog2 y - 23)"
    and "\<bar>g - y\<bar> \<le> 2 powi (ilog2 y - 23) / 2"
    and "\<bar>g - y\<bar> \<le> \<bar>of_int N * 2 powi (ilog2 y - 23) - y\<bar>"
proof -
  have nz: "y \<noteq> 0" using assms(2) by auto
  have "- 126 \<le> ilog2 y" using nz assms(2) by (rule ilog2_ge)
  then have q: "max (ilog2 y - (prec binary32 - 1)) (qmin binary32) = ilog2 y - 23"
    by (simp add: binary32_def)
  from fl_SomeD(1) [OF assms(1) nz]
  have g: "g = of_int (round_even (y / 2 powi (ilog2 y - 23))) * 2 powi (ilog2 y - 23)"
    by (simp only: q)
  then show "\<exists>G. g = of_int G * 2 powi (ilog2 y - 23)" by blast
  from quantum_error [of y "ilog2 y - 23"] show "\<bar>g - y\<bar> \<le> 2 powi (ilog2 y - 23) / 2"
    by (simp only: g [symmetric] two_powi_half)
  from quantum_nearest [of y "ilog2 y - 23" N]
  show "\<bar>g - y\<bar> \<le> \<bar>of_int N * 2 powi (ilog2 y - 23) - y\<bar>"
    by (simp only: g [symmetric])
qed

lemma two_powi_23: "(2::rat) powi e = 2 ^ 23 * 2 powi (e - 23)"
proof -
  have "(2::rat) powi (23 + (e - 23)) = 2 powi 23 * 2 powi (e - 23)"
    by (rule power_int_add) simp
  then show ?thesis by simp
qed

lemma fl32_nearest:
  assumes y: "fl binary32 y = Some g" and lo: "2 powi (- 126) \<le> y"
    and p: "fl binary32 p = Some p"
  shows "\<bar>g - y\<bar> \<le> \<bar>p - y\<bar>"
proof (cases "2 powi (ilog2 y) \<le> \<bar>p\<bar>")
  case True
  from fl_grid [OF p True] obtain N where "p = of_int N * 2 powi (ilog2 y - 23)"
    by (auto simp: binary32_def)
  with fl32_normal(3) [OF y, of N] lo show ?thesis by simp
next
  case False
  have ypos: "0 < y" using lo two_powi_pos [of "- 126"] by linarith
  then have nz: "y \<noteq> 0" by simp
  have E: "2 powi (ilog2 y) \<le> y" using ilog2_bounds(1) [OF nz] ypos by simp
  have "\<bar>g - y\<bar> \<le> \<bar>of_int (2 ^ 23) * 2 powi (ilog2 y - 23) - y\<bar>"
    using lo ypos by (intro fl32_normal(3) [OF y]) simp
  also have "of_int (2 ^ 23) * 2 powi (ilog2 y - 23) = (2::rat) powi (ilog2 y)"
    using two_powi_23 [of "ilog2 y"] by simp
  finally have "\<bar>g - y\<bar> \<le> \<bar>2 powi (ilog2 y) - y\<bar>" .
  with E False show ?thesis by linarith
qed

text \<open>
  The heart of the round trip. \<open>F\<close> is the bus frequency, \<open>p\<close> the period, \<open>x\<close> the
  single-precision product and \<open>g\<close> the single-precision quotient of \<open>floor (x + 0.5)\<close> and
  \<open>F\<close>. From \<open>2\<^sup>2\<^sup>3\<close> cycles on \<open>x\<close> is an integer within one half of the product, and \<open>g\<close>
  is at least as near to the quotient as \<open>p\<close>. Below, the product is rounded by at most
  one quarter; either the quotient is rounded by at most one quarter too, or \<open>g\<close> and
  \<open>p\<close> lie on one grid whose step is at most one cycle, or the quotient is a power of
  two and exact.
\<close>

lemma round_trip_core:
  assumes F: "fl binary32 F = Some F" and F1: "1 \<le> F" and F31: "F < 2 ^ 31"
    and p: "fl binary32 p = Some p"
    and x: "fl binary32 (F * p) = Some x"
    and lo: "1 / 2 \<le> x" and hi: "F * p < 2 ^ 24"
    and g: "fl binary32 (of_int \<lfloor>x + 1 / 2\<rfloor> / F) = Some g"
  shows "\<bar>g * F - F * p\<bar> \<le> 1"
proof -
  define z where "z = F * p"
  define n where "n = \<lfloor>x + 1 / 2\<rfloor>"
  define y where "y = of_int n / F"
  define e where "e = ilog2 y"
  define Q :: rat where "Q = 2 powi (e - 23)"
  define s where "s = F * Q"
  have Fpos: "0 < F" using F1 by simp
  have zpos: "0 < z" using fl_pos [OF x] lo by (simp add: z_def)
  then have ppos: "0 < p" using Fpos by (simp add: z_def zero_less_mult_iff)
  have nx: "of_int n \<le> x + 1 / 2" "x + 1 / 2 < of_int n + 1"
    unfolding n_def by linarith+
  have n1: "1 \<le> n" using lo by (simp add: n_def le_floor_iff)
  then have n1r: "(1::rat) \<le> of_int n" by simp
  have ypos: "0 < y" using n1r Fpos by (simp add: y_def)
  have ynz: "y \<noteq> 0" using ypos by simp
  have ylo: "2 powi (- 126) \<le> y"
  proof -
    have "(2::rat) powi (- 126) \<le> 1 / 2 ^ 31" by (simp add: power_int_minus)
    also have "\<dots> \<le> 1 / F" using Fpos F31 by (simp add: frac_le)
    also have "\<dots> \<le> of_int n / F" using n1r Fpos by (simp add: divide_right_mono)
    finally show ?thesis by (simp add: y_def)
  qed
  have gy: "fl binary32 y = Some g" using g by (simp add: y_def n_def)
  have yabs: "2 powi (- 126) \<le> \<bar>y\<bar>" using ylo ypos by simp
  from fl32_normal(1) [OF gy yabs] obtain G where G: "g = of_int G * Q"
    by (auto simp: Q_def e_def)
  have gerr: "\<bar>g - y\<bar> \<le> Q / 2"
    using fl32_normal(2) [OF gy yabs] by (simp add: Q_def e_def)
  have Qpos: "0 < Q" by (simp add: Q_def)
  have spos: "0 < s" using Fpos Qpos by (simp add: s_def)
  have E: "2 powi e = 2 ^ 23 * Q" unfolding Q_def by (rule two_powi_23)
  have Ey: "2 ^ 23 * Q \<le> y" "y < 2 ^ 24 * Q"
  proof -
    from ilog2_bounds [OF ynz] ypos have "2 powi e \<le> y" "y < 2 powi (e + 1)"
      by (simp_all add: e_def)
    then show "2 ^ 23 * Q \<le> y" "y < 2 ^ 24 * Q"
      by (simp_all add: E two_powi_double)
  qed
  have yF: "y * F = of_int n" using Fpos by (simp add: y_def)
  have T: "2 ^ 23 * s \<le> of_int n"
  proof -
    have "2 ^ 23 * s = 2 ^ 23 * Q * F" by (simp add: s_def)
    also have "\<dots> \<le> y * F" using Ey(1) Fpos by (intro mult_right_mono) simp_all
    also have "\<dots> = of_int n" by (rule yF)
    finally show ?thesis .
  qed
  have scale: "\<bar>a * F - of_int n\<bar> = \<bar>a - y\<bar> * F" for a
  proof -
    have "a * F - of_int n = (a - y) * F" by (simp add: yF [symmetric] algebra_simps)
    then show ?thesis using Fpos by (simp add: abs_mult)
  qed
  have gn: "\<bar>g * F - of_int n\<bar> \<le> s / 2"
  proof -
    have "\<bar>g * F - of_int n\<bar> = \<bar>g - y\<bar> * F" by (rule scale)
    also have "\<dots> \<le> Q / 2 * F" using gerr Fpos by (intro mult_right_mono) simp_all
    also have "\<dots> = s / 2" by (simp add: s_def)
    finally show ?thesis .
  qed
  have near: "\<bar>g * F - of_int n\<bar> \<le> \<bar>z - of_int n\<bar>"
  proof -
    have "\<bar>g * F - of_int n\<bar> = \<bar>g - y\<bar> * F" by (rule scale)
    also have "\<dots> \<le> \<bar>p - y\<bar> * F"
      using fl32_nearest [OF gy ylo p] Fpos by (intro mult_right_mono) simp_all
    also have "\<dots> = \<bar>p * F - of_int n\<bar>" by (rule scale [symmetric])
    also have "p * F = z" by (simp add: z_def)
    finally show ?thesis .
  qed
  have znz: "z \<noteq> 0" using zpos by simp
  have zhi: "\<bar>z\<bar> < 2 powi 24" using hi zpos by (simp add: z_def)
  have xz: "fl binary32 z = Some x" using x by (simp add: z_def)
  show ?thesis
  proof (cases "2 ^ 23 \<le> z")
    case True
    then have "2 powi 23 \<le> \<bar>z\<bar>" using zpos by simp
    then have "23 \<le> ilog2 z" using znz by (intro ilog2_ge)
    moreover have "ilog2 z < 24" using znz zhi by (rule ilog2_less)
    ultimately have ez: "ilog2 z = 23" by simp
    from fl_SomeD(1) [OF xz znz] have xM: "x = of_int (round_even z)"
      by (simp add: ez binary32_def)
    then have "n = round_even z" by (simp only: n_def floor_of_int_add_half)
    with xM have xn: "x = of_int n" by simp
    from quantum_error [of z 0] have "\<bar>x - z\<bar> \<le> 1 / 2"
      by (simp add: xM power_int_minus)
    then have "\<bar>z - of_int n\<bar> \<le> 1 / 2" by (simp add: xn abs_minus_commute)
    with near have "\<bar>g * F - z\<bar> \<le> 1" by linarith
    then show ?thesis by (simp add: z_def)
  next
    case False
    then have "\<bar>z\<bar> < 2 powi 23" using zpos by simp
    from fl_abs_error [OF this, of binary32] xz have "\<bar>x - z\<bar> \<le> 2 powi (- 2)"
      by (auto simp: binary32_def)
    then have eps: "\<bar>x - z\<bar> \<le> 1 / 4" by (simp add: power_int_minus)
    have nz: "\<bar>of_int n - z\<bar> \<le> 3 / 4" using eps nx by linarith
    have "(of_int n :: rat) < 2 ^ 23 + 1" using nx(1) eps False by linarith
    then have "(of_int n :: rat) < of_int (2 ^ 23 + 1)" by simp
    then have "n < 2 ^ 23 + 1" by (simp only: of_int_less_iff)
    then have "n \<le> 2 ^ 23" by simp
    then have "(of_int n :: rat) \<le> of_int (2 ^ 23)" by (simp only: of_int_le_iff)
    then have n23: "(of_int n :: rat) \<le> 2 ^ 23" by simp
    with T have s1: "s \<le> 1" by simp
    show ?thesis
    proof (cases "s \<le> 1 / 2")
      case True
      with gn nz have "\<bar>g * F - z\<bar> \<le> 1" by linarith
      then show ?thesis by (simp add: z_def)
    next
      case big: False
      show ?thesis
      proof (cases "2 powi e \<le> p")
        case True
        then have "2 powi (ilog2 y) \<le> \<bar>p\<bar>" using ppos by (simp add: e_def)
        from fl_grid [OF p this] obtain N where N: "p = of_int N * Q"
          by (auto simp: binary32_def Q_def e_def)
        have d: "g * F - z = of_int (G - N) * s"
          by (simp add: G N z_def s_def algebra_simps)
        have "\<bar>g * F - z\<bar> < 2 * s" using gn nz big by linarith
        then have "\<bar>of_int (G - N) :: rat\<bar> * s < 2 * s"
          using spos by (simp add: d abs_mult)
        then have "\<bar>of_int (G - N) :: rat\<bar> < 2"
          using spos by simp
        then have "(of_int \<bar>G - N\<bar> :: rat) < of_int 2" by simp
        then have "\<bar>G - N\<bar> < 2" by (simp only: of_int_less_iff)
        then have "\<bar>G - N\<bar> \<le> 1" by simp
        then have "(of_int \<bar>G - N\<bar> :: rat) \<le> of_int 1" by (simp only: of_int_le_iff)
        then have "\<bar>of_int (G - N) :: rat\<bar> \<le> 1" by simp
        then have "\<bar>of_int (G - N) :: rat\<bar> * s \<le> 1 * s"
          using spos by (intro mult_right_mono) simp_all
        then have "\<bar>g * F - z\<bar> \<le> s" using spos by (simp add: d abs_mult)
        with s1 have "\<bar>g * F - z\<bar> \<le> 1" by linarith
        then show ?thesis by (simp add: z_def)
      next
        case below: False
        define T where "T = 2 ^ 23 * s"
        have Tdef: "T = F * 2 powi e" by (simp add: T_def s_def E)
        have zT: "z < T"
        proof -
          have "F * p < F * 2 powi e" using below Fpos by (intro mult_strict_left_mono) simp_all
          then show ?thesis by (simp add: z_def Tdef)
        qed
        have Tn: "T \<le> of_int n" using T by (simp add: T_def)
        have Tbig: "2 ^ 22 < T" using big by (simp add: T_def)
        have Fnz: "F \<noteq> 0" using Fpos by simp
        define eF where "eF = ilog2 F"
        have "2 powi eF \<le> \<bar>F\<bar>" using ilog2_bounds(1) [OF Fnz] by (simp add: eF_def)
        from fl_grid [OF F this] obtain NF where NF: "F = of_int NF * 2 powi (eF - 23)"
          by (auto simp: binary32_def)
        have "F < 2 powi (eF + 1)" using ilog2_bounds(2) [OF Fnz] Fpos by (simp add: eF_def)
        then have "F * 2 powi e < 2 powi (eF + 1) * 2 powi e"
          by (intro mult_strict_right_mono) simp_all
        also have "\<dots> = 2 powi (eF + 1 + e)"
          by (simp add: power_int_add)
        finally have "(2::rat) powi 22 < 2 powi (eF + 1 + e)"
          using Tbig by (simp add: Tdef)
        then have k: "0 \<le> eF + e - 22"
        proof -
          have "\<not> eF + 1 + e \<le> 22"
          proof
            assume "eF + 1 + e \<le> 22"
            then have "(2::rat) powi (eF + 1 + e) \<le> 2 powi 22"
              by (intro power_int_increasing) simp_all
            with \<open>(2::rat) powi 22 < 2 powi (eF + 1 + e)\<close> show False by simp
          qed
          then show ?thesis by simp
        qed
        have "2 * T = of_int NF * (2 powi (eF - 23) * 2 powi e * 2 powi 1)"
          by (simp add: Tdef NF)
        also have "2 powi (eF - 23) * 2 powi e * 2 powi 1 = (2::rat) powi (eF + e - 22)"
        proof -
          have a1: "(2::rat) powi ((eF - 23) + e) = 2 powi (eF - 23) * 2 powi e"
            by (rule power_int_add) simp
          have a2: "(2::rat) powi (((eF - 23) + e) + 1) = 2 powi ((eF - 23) + e) * 2 powi 1"
            by (rule power_int_add) simp
          have a3: "((eF - 23) + e) + 1 = eF + e - 22" by simp
          show ?thesis by (simp only: a1 [symmetric] a2 [symmetric] a3)
        qed
        also have "\<dots> = of_int (2 ^ nat (eF + e - 22))"
          using k by (rule powi_nonneg_int)
        finally have T2: "2 * T = of_int (NF * 2 ^ nat (eF + e - 22))"
          by simp
        define TT where "TT = NF * 2 ^ nat (eF + e - 22)"
        have TT: "2 * T = of_int TT" using T2 by (simp add: TT_def)
        define D :: rat where "D = of_int (2 * n - TT)"
        have D: "D = (of_int n - T) + (of_int n - T)"
          by (simp add: D_def TT [symmetric])
        have "of_int n - z \<le> 3 / 4" by (rule order_trans [OF abs_ge_self nz])
        with zT have "of_int n - T < 1" by linarith
        with Tn D have "0 \<le> D" "D < 2" by linarith+
        then have "(of_int 0 :: rat) \<le> of_int (2 * n - TT)" "(of_int (2 * n - TT) :: rat) < of_int 2"
          by (simp_all add: D_def)
        then have "0 \<le> 2 * n - TT" "2 * n - TT < 2"
          by (simp_all only: of_int_le_iff of_int_less_iff)
        then consider "2 * n - TT = 0" | "2 * n - TT = 1" by linarith
        then show ?thesis
        proof cases
          case 1
          then have "(of_int (2 * n) :: rat) = of_int TT" by simp
          then have nT: "of_int n = T" using TT by simp
          have "y * F = of_int n" by (rule yF)
          also have "\<dots> = T" by (rule nT)
          also have "\<dots> = (2 ^ 23 * Q) * F" by (simp add: T_def s_def)
          finally have "y = 2 ^ 23 * Q" using Fpos by (simp only: mult_cancel_right) simp
          then have yQ: "of_int (2 ^ 23) * Q - y = 0" by simp
          have "\<bar>g - y\<bar> \<le> \<bar>of_int (2 ^ 23) * Q - y\<bar>"
            unfolding Q_def e_def by (rule fl32_normal(3) [OF gy yabs])
          then have "\<bar>g - y\<bar> \<le> 0" by (simp only: yQ abs_zero)
          then have "g = y" by simp
          then have "g * F = of_int n" by (simp only: yF)
          with nz have "\<bar>g * F - z\<bar> \<le> 1" by linarith
          then show ?thesis by (simp add: z_def)
        next
          case 2
          then have "(of_int (2 * n) :: rat) = of_int (TT + 1)" by simp
          then have nT: "of_int n = T + 1 / 2" using TT by simp
          have pb: "p \<le> 2 powi e - Q / 2"
          proof (cases "2 powi (e - 1) \<le> p")
            case True
            then have "2 powi (e - 1) \<le> \<bar>p\<bar>" using ppos by simp
            from fl_grid [OF p this] obtain N' where "p = of_int N' * 2 powi (e - 1 - 23)"
              by (auto simp: binary32_def)
            then have N': "p = of_int N' * (Q / 2)"
              using two_powi_half [of "e - 23"] by (simp add: Q_def algebra_simps)
            have "of_int N' * (Q / 2) < 2 ^ 23 * Q" using below by (simp add: N' E)
            then have "of_int N' * (Q / 2) < of_int (2 ^ 24) * (Q / 2)" by simp
            then have "(of_int N' :: rat) < of_int (2 ^ 24)"
              using Qpos by (simp only: mult_less_cancel_right_pos half_gt_zero)
            then have "N' < 2 ^ 24" by (simp only: of_int_less_iff)
            then have "N' \<le> 2 ^ 24 - 1" by simp
            then have "(of_int N' :: rat) \<le> of_int (2 ^ 24 - 1)" by (simp only: of_int_le_iff)
            then have "of_int N' * (Q / 2) \<le> of_int (2 ^ 24 - 1) * (Q / 2)"
              using Qpos by (intro mult_right_mono) simp_all
            then show ?thesis by (simp add: N' E algebra_simps)
          next
            case False
            then have "p < 2 powi e / 2" by (simp add: two_powi_half)
            then show ?thesis using Qpos by (simp add: E)
          qed
          have "F * p \<le> F * (2 powi e - Q / 2)" using pb Fpos by (intro mult_left_mono) simp_all
          then have "z \<le> T - s / 2" by (simp add: z_def Tdef s_def algebra_simps)
          with big nT nz show ?thesis by linarith
        qed
      qed
    qed
  qed
qed

text \<open>
  Claim C7, amended. Let \<^verbatim>\<open>F_BUS\<close> be a positive \<^verbatim>\<open>int\<close> that single precision represents
  exactly, \<open>p\<close> a single-precision period and \<open>x\<close> the single-precision product
  \<open>F_BUS * p\<close>. If \<open>F_BUS * p < 2\<^sup>2\<^sup>4\<close> and the raw value \<open>floor (x + 0.5) - 1\<close> is not below
  \<open>valueMin\<close>, then \<^verbatim>\<open>period(p)\<close> is defined, it stores that raw value without clamping,
  and \<^verbatim>\<open>period()\<close> afterwards returns a value that differs from \<open>p\<close> by at most
  \<open>1 / F_BUS\<close>.
\<close>

theorem period_round_trip:
  assumes F: "int_to_float (F_BUS pf) = Some (of_int (F_BUS pf))"
    and Fpos: "0 < F_BUS pf" and Fint: "F_BUS pf < 2 ^ 31"
    and p: "is_float32 p"
    and x: "fmul (of_int (F_BUS pf)) p = Some x"
    and lo: "uint (valueMin pf) \<le> \<lfloor>x + 1 / 2\<rfloor> - 1"
    and hi: "of_int (F_BUS pf) * p < 2 ^ 24"
  shows "\<exists>t' m' g. period_set pf p t m = Some (t', m')
            \<and> period_newValue pf p = Some (value_get t')
            \<and> uint (value_get t') = \<lfloor>x + 1 / 2\<rfloor> - 1
            \<and> period_get pf t' = Some g
            \<and> \<bar>g - p\<bar> \<le> 1 / of_int (F_BUS pf)"
proof -
  define F :: rat where "F = of_int (F_BUS pf)"
  define z where "z = F * p"
  define n where "n = \<lfloor>x + 1 / 2\<rfloor>"
  have F1: "1 \<le> F" using Fpos by (simp add: F_def)
  have F31: "F < 2 ^ 31"
  proof -
    from Fint have "(of_int (F_BUS pf) :: rat) < of_int (2 ^ 31)" by (simp only: of_int_less_iff)
    then show ?thesis by (simp add: F_def)
  qed
  have Ff: "fl binary32 F = Some F" using F by (simp add: int_to_float_def F_def)
  have pf: "fl binary32 p = Some p" using p by (simp add: is_float32_def)
  have xz: "fl binary32 z = Some x" using x by (simp add: fmul_def F_def z_def)
  have fm: "fmul F p = Some x" using x by (simp add: F_def)
  have n_lo: "uint (valueMin pf) \<le> n - 1" using lo by (simp add: n_def)
  have n1: "1 \<le> n" using n_lo uint_ge_0 [of "valueMin pf"] by linarith
  have nx: "of_int n \<le> x + 1 / 2" "x + 1 / 2 < of_int n + 1"
    unfolding n_def by linarith+
  have "(of_int 1 :: rat) \<le> of_int n" using n1 by (simp only: of_int_le_iff)
  with nx(1) have x_lo: "1 / 2 \<le> x" by simp
  then have "0 < x" by simp
  with xz have zpos: "0 < z" by (rule fl_pos)
  have z_hi: "z < 2 ^ 24" using hi by (simp add: z_def F_def)
  have "\<bar>z\<bar> < 2 powi 24" using zpos z_hi by simp
  from fl_abs_error [OF this, of binary32] xz have "\<bar>x - z\<bar> \<le> 2 powi (- 1)"
    by (auto simp: binary32_def)
  then have xe: "\<bar>x - z\<bar> \<le> 1 / 2" by (simp add: power_int_minus)
  have "(of_int n :: rat) < 2 ^ 24 + 1" using nx(1) xe z_hi by linarith
  then have "(of_int n :: rat) < of_int (2 ^ 24 + 1)" by simp
  then have "n < 2 ^ 24 + 1" by (simp only: of_int_less_iff)
  then have n_hi: "n \<le> 2 ^ 24" by simp
  have nv: "period_newValue pf p = Some (word_of_int (n - 1))"
    unfolding n_def
  proof (rule period_newValue_exact)
    show "int_to_float (F_BUS pf) = Some F" using F by (simp add: F_def)
    show "fmul F p = Some x" by (rule fm)
    show "1 / 2 \<le> x" by (rule x_lo)
    show "\<lfloor>x + 1 / 2\<rfloor> \<le> 2 ^ 24" using n_hi by (simp add: n_def)
  qed
  define w :: "32 word" where "w = word_of_int (n - 1)"
  define t' where "t' = fst (value_set pf w t m)"
  have set: "period_set pf p t m = Some (t', snd (value_set pf w t m))"
    by (simp add: period_set_def nv w_def t'_def)
  have val: "value_get t' = w"
    unfolding t'_def w_def using n_lo n_hi by (intro value_set_unclamped) simp_all
  have uw1: "uint w = n - 1"
    unfolding w_def using n1 n_hi by (intro uint_word_of_int_32) simp_all
  then have uw: "uint (w + 1) = n"
    using n1 n_hi by (simp add: uint_word_ariths)
  have conv: "uint32_to_float (value_get t' + 1) = Some (of_int n)"
    using n1 n_hi by (simp add: uint32_to_float_def val uw fl32_of_int)
  have nF_lo: "2 powi (qmin binary32 + prec binary32 - 1) \<le> \<bar>of_int n / F\<bar>"
  proof -
    have "(2::rat) powi (- 126) \<le> 1 / 2 ^ 31" by (simp add: power_int_minus)
    also have "\<dots> \<le> 1 / F" using F1 F31 by (simp add: frac_le)
    also have "\<dots> \<le> of_int n / F" using n1 F1 by (simp add: divide_right_mono)
    also have "\<dots> = \<bar>of_int n / F\<bar>" using n1 F1 by simp
    finally show ?thesis by (simp add: binary32_def)
  qed
  have nF_hi: "\<bar>of_int n / F\<bar> < 2 powi emax binary32"
  proof -
    have "\<bar>of_int n / F\<bar> = of_int n / F" using n1 F1 by simp
    also have "\<dots> \<le> of_int n / 1" using n1 F1 by (intro divide_left_mono) simp_all
    also have "\<dots> \<le> of_int (2 ^ 24)" using n_hi by (simp only: div_by_1 of_int_le_iff)
    also have "\<dots> < (2::rat) powi emax binary32" by (simp add: binary32_def)
    finally show ?thesis .
  qed
  from fl_rel_error [OF nF_lo nF_hi]
  obtain g where g: "fl binary32 (of_int n / F) = Some g"
    by (auto simp: binary32_def)
  have get: "period_get pf t' = Some g"
    using F F1 g by (simp add: period_get_def conv fdiv_def F_def)
  have "\<bar>g * F - F * p\<bar> \<le> 1"
    using Ff F1 F31 pf xz [unfolded z_def] x_lo z_hi [unfolded z_def] g [unfolded n_def]
    by (rule round_trip_core)
  moreover have "g * F - F * p = (g - p) * F" by (simp add: algebra_simps)
  ultimately have "\<bar>g - p\<bar> * F \<le> 1" using F1 by (simp add: abs_mult)
  then have "\<bar>g - p\<bar> \<le> 1 / F" using F1 by (simp add: pos_le_divide_eq)
  then have "\<bar>g - p\<bar> \<le> 1 / of_int (F_BUS pf)" by (simp add: F_def)
  moreover have "period_newValue pf p = Some (value_get t')" by (simp add: nv val w_def)
  moreover have "uint (value_get t') = \<lfloor>x + 1 / 2\<rfloor> - 1" by (simp add: val uw1 n_def)
  ultimately show ?thesis using set get by blast
qed

lemma round_trip_inputs:
  "is_float32 (14660155 / 1099511627776)"
  "fmul 48000000 (14660155 / 1099511627776) = Some 640"
  "is_float32 (1 / 8)"
  "fmul 48000000 (1 / 8) = Some 6000000"
  by code_simp+

theorem period_round_trip_witness:
  "int_to_float (F_BUS bus48) = Some (of_int (F_BUS bus48))
   \<and> 0 < F_BUS bus48 \<and> F_BUS bus48 < 2 ^ 31
   \<and> is_float32 (14660155 / 1099511627776)
   \<and> fmul (of_int (F_BUS bus48)) (14660155 / 1099511627776) = Some 640
   \<and> uint (valueMin bus48) \<le> \<lfloor>640 + 1 / 2 :: rat\<rfloor> - 1
   \<and> of_int (F_BUS bus48) * (14660155 / 1099511627776 :: rat) < 2 ^ 24
   \<and> (\<exists>t' m' g. period_set bus48 (14660155 / 1099511627776) zeroed idle = Some (t', m')
          \<and> uint (value_get t') = 639 \<and> period_get bus48 t' = Some g
          \<and> \<bar>g - 14660155 / 1099511627776\<bar> \<le> 1 / of_int (F_BUS bus48))
   \<and> is_float32 (1 / 8)
   \<and> fmul (of_int (F_BUS bus48)) (1 / 8) = Some 6000000
   \<and> uint (valueMin bus48) \<le> \<lfloor>6000000 + 1 / 2 :: rat\<rfloor> - 1
   \<and> of_int (F_BUS bus48) * (1 / 8 :: rat) < 2 ^ 24
   \<and> (\<exists>t' m' g. period_set bus48 (1 / 8) zeroed idle = Some (t', m')
          \<and> uint (value_get t') = 5999999 \<and> period_get bus48 t' = Some g
          \<and> \<bar>g - 1 / 8\<bar> \<le> 1 / of_int (F_BUS bus48))"
proof -
  have h: "0 < F_BUS bus48" "F_BUS bus48 < 2 ^ 31"
    by (simp_all add: bus48_def)
  have fa: "\<lfloor>640 + 1 / 2 :: rat\<rfloor> = 640" "\<lfloor>6000000 + 1 / 2 :: rat\<rfloor> = 6000000"
    using floor_of_int_add_half [of 640] floor_of_int_add_half [of 6000000] by simp_all
  have a: "fmul (of_int (F_BUS bus48)) (14660155 / 1099511627776) = Some 640"
    "uint (valueMin bus48) \<le> \<lfloor>640 + 1 / 2 :: rat\<rfloor> - 1"
    "of_int (F_BUS bus48) * (14660155 / 1099511627776 :: rat) < 2 ^ 24"
    by (simp_all add: F_BUS_bus48 round_trip_inputs fa) (simp_all add: bus48_def)
  have b: "fmul (of_int (F_BUS bus48)) (1 / 8) = Some 6000000"
    "uint (valueMin bus48) \<le> \<lfloor>6000000 + 1 / 2 :: rat\<rfloor> - 1"
    "of_int (F_BUS bus48) * (1 / 8 :: rat) < 2 ^ 24"
    by (simp_all add: F_BUS_bus48 round_trip_inputs fa) (simp_all add: bus48_def)
  from period_round_trip [OF int_to_float_bus48 h round_trip_inputs(1) a, of zeroed idle]
  have ra: "\<exists>t' m' g. period_set bus48 (14660155 / 1099511627776) zeroed idle = Some (t', m')
          \<and> uint (value_get t') = 639 \<and> period_get bus48 t' = Some g
          \<and> \<bar>g - 14660155 / 1099511627776\<bar> \<le> 1 / of_int (F_BUS bus48)"
    by (simp only: fa) auto
  from period_round_trip [OF int_to_float_bus48 h round_trip_inputs(3) b, of zeroed idle]
  have rb: "\<exists>t' m' g. period_set bus48 (1 / 8) zeroed idle = Some (t', m')
          \<and> uint (value_get t') = 5999999 \<and> period_get bus48 t' = Some g
          \<and> \<bar>g - 1 / 8\<bar> \<le> 1 / of_int (F_BUS bus48)"
    by (simp only: fa) auto
  from int_to_float_bus48 h round_trip_inputs(1,3) a b ra rb show ?thesis
    by blast
qed

end
